theory Spec2Isabelle
  imports Main "HOL-Library.Finite_Map" "HOL-Library.Stream"
begin

section \<open>A write-back cache in front of a durable key-value store (cache/cache.go)\<close>

text \<open>
  The Go package \<^verbatim>\<open>cache\<close> keeps a bounded table of entries in memory and pushes
  values into a Pebble database when an entry is evicted or is not admitted. This theory
  embeds the package function by function.

  Conventions of the embedding.
  \<^item> A \<^verbatim>\<open>[]byte\<close> and a Go \<^verbatim>\<open>string\<close> are both sequences of bytes; both are
    \<open>char list\<close> here (an Isabelle \<open>char\<close> is one byte). A nil slice and an empty slice
    are both \<open>[]\<close>.
  \<^item> Go's \<^verbatim>\<open>int\<close> is modelled by \<open>int\<close>: a counter or a table size would need
    \<open>2^63\<close> calls or entries to wrap.
  \<^item> \<^verbatim>\<open>MutexLock\<close> has no counterpart: the model describes sequential executions, in
    which every operation runs to completion before the next one starts.
  \<^item> Every operation takes the cache and returns its results together with the cache
    after the call. The state of the database behind \<^verbatim>\<open>c.db\<close> and the readings of
    the process clock still to come are carried in the same record.
\<close>

type_synonym bytes = "char list"
type_synonym time = nat

subsection \<open>Statistics\<close>

record Statistics =
  cache_hits :: int
  cache_misses :: int
  cache_accesses :: int
  evictions :: int
  prefetches :: int
  additions :: int

definition CacheHit :: "Statistics \<Rightarrow> Statistics" where
  "CacheHit s = s\<lparr>cache_accesses := cache_accesses s + 1, cache_hits := cache_hits s + 1\<rparr>"

definition CacheMiss :: "Statistics \<Rightarrow> Statistics" where
  "CacheMiss s = s\<lparr>cache_accesses := cache_accesses s + 1, cache_misses := cache_misses s + 1\<rparr>"

definition CacheEvict :: "Statistics \<Rightarrow> Statistics" where
  "CacheEvict s = s\<lparr>evictions := evictions s + 1\<rparr>"

definition CachePrefetch :: "Statistics \<Rightarrow> Statistics" where
  "CachePrefetch s = s\<lparr>prefetches := prefetches s + 1\<rparr>"

definition CacheAdd :: "Statistics \<Rightarrow> Statistics" where
  "CacheAdd s = s\<lparr>additions := additions s + 1\<rparr>"

text \<open>\<^verbatim>\<open>CreateStatistics\<close> names five fields; Go zero-initialises \<^verbatim>\<open>additions\<close>.\<close>

definition CreateStatistics :: Statistics where
  "CreateStatistics =
     \<lparr>cache_hits = 0, cache_misses = 0, cache_accesses = 0, evictions = 0, prefetches = 0,
      additions = 0\<rparr>"

subsection \<open>The durable store\<close>

text \<open>
  Modelled from the spec: the durable store. The database is the external library
  \<^verbatim>\<open>github.com/cockroachdb/pebble\<close>, whose source is not part of the package; the
  package calls \<^verbatim>\<open>Get\<close>, \<^verbatim>\<open>Set\<close> and \<^verbatim>\<open>Close\<close> of it. The model follows the
  contract the specification gives for this collaborator (sections 6 and 7, and the
  glossary entry for a durability-synchronous write):
  \<^item> \<open>kv\<close> is what a read returns; \<open>durable\<close> is what has been confirmed flushed, and
    a write with \<open>Sync\<close> is confirmed flushed when it returns;
  \<^item> a read of an absent key reports \<open>ErrNotFound\<close>, which is told apart from every
    other failure;
  \<^item> a call on a closed handle fails (the specification counts a closed handle among the
    store failures that are handed to the caller);
  \<^item> any call may fail with an I/O error. Which calls do is fixed by \<open>faults\<close>, the
    outcomes of the calls still to come (\<open>Some msg\<close> is a failure; an exhausted list
    means no further failure). A failed write changes neither \<open>kv\<close> nor \<open>durable\<close>.
\<close>

datatype error = ErrNotFound | ErrClosed | ErrIO string

datatype WriteOptions = Sync | NoSync

record DB =
  kv :: "bytes \<rightharpoonup> bytes"
  durable :: "bytes \<rightharpoonup> bytes"
  closed :: bool
  faults :: "string option list"

text \<open>Modelled from the spec: whether the call that is being made fails.\<close>

definition next_fault :: "DB \<Rightarrow> string option \<times> DB" where
  "next_fault d = (case faults d of [] \<Rightarrow> (None, d) | f # fs \<Rightarrow> (f, d\<lparr>faults := fs\<rparr>))"

text \<open>Modelled from the spec: \<^verbatim>\<open>db.Get(key)\<close>, the value and the error it returns.\<close>

definition db_Get :: "bytes \<Rightarrow> DB \<Rightarrow> (bytes \<times> error option) \<times> DB" where
  "db_Get key d =
     (if closed d then (([], Some ErrClosed), d)
      else case next_fault d of
        (Some msg, d') \<Rightarrow> (([], Some (ErrIO msg)), d')
      | (None, d') \<Rightarrow>
          (case kv d' key of
             None \<Rightarrow> (([], Some ErrNotFound), d')
           | Some v \<Rightarrow> ((v, None), d')))"

text \<open>Modelled from the spec: \<^verbatim>\<open>db.Set(key, value, opts)\<close>.\<close>

definition db_Set :: "bytes \<Rightarrow> bytes \<Rightarrow> WriteOptions \<Rightarrow> DB \<Rightarrow> error option \<times> DB" where
  "db_Set key val opts d =
     (if closed d then (Some ErrClosed, d)
      else case next_fault d of
        (Some msg, d') \<Rightarrow> (Some (ErrIO msg), d')
      | (None, d') \<Rightarrow>
          (let kv' = (kv d')(key \<mapsto> val)
           in (None, d'\<lparr>kv := kv', durable := (if opts = Sync then kv' else durable d')\<rparr>)))"

text \<open>Modelled from the spec: \<^verbatim>\<open>db.Close()\<close>.\<close>

definition db_Close :: "DB \<Rightarrow> error option \<times> DB" where
  "db_Close d =
     (if closed d then (Some ErrClosed, d)
      else case next_fault d of
        (Some msg, d') \<Rightarrow> (Some (ErrIO msg), d'\<lparr>closed := True\<rparr>)
      | (None, d') \<Rightarrow> (None, d'\<lparr>closed := True\<rparr>))"

subsection \<open>Cache entries and the cache\<close>

text \<open>
  \<open>CacheEntry\<close> and \<open>Cache\<close> are parametric in how an entry holds its bytes: as the
  bytes themselves (\<open>bytes Cache\<close>), or as a slice that refers to memory shared with the
  caller (\<open>slice Cache\<close>, in the subsection on slices below). The field
  \<^verbatim>\<open>size\<close> is \<open>size'\<close>, and \<open>clock\<close> is not a field of the Go struct.
\<close>

record 'v CacheEntry =
  "value" :: 'v
  size' :: int
  first_inserted :: time
  last_updated :: time

record 'v Cache =
  data :: "(string, 'v CacheEntry) fmap"
  capacity :: int
  stats :: Statistics
  db :: DB
  clock :: "time stream"

definition len :: "('k, 'e) fmap \<Rightarrow> int" where
  "len m = int (fcard (fmdom m))"

definition makeKey :: "bytes \<Rightarrow> string" where
  "makeKey k = k"

text \<open>\<^verbatim>\<open>time.Now()\<close>: the next reading of the clock.\<close>

definition time_Now :: "'v Cache \<Rightarrow> time \<times> 'v Cache" where
  "time_Now c = (shd (clock c), c\<lparr>clock := stl (clock c)\<rparr>)"

definition CreateCache :: "DB \<Rightarrow> int \<Rightarrow> time stream \<Rightarrow> 'v Cache" where
  "CreateCache d cache_capacity clk =
     \<lparr>data = fmempty, capacity = cache_capacity, stats = CreateStatistics, db = d, clock = clk\<rparr>"

text \<open>
  \<^verbatim>\<open>CreateCacheAndPebble\<close> opens a database at a fixed path and passes it to
  \<^verbatim>\<open>CreateCache\<close>; opening a database is outside the model.
\<close>

definition Close :: "'v Cache \<Rightarrow> error option \<times> 'v Cache" where
  "Close c = (let (err, d) = db_Close (db c) in (err, c\<lparr>db := d\<rparr>))"

definition RemainingCapacity :: "'v Cache \<Rightarrow> int" where
  "RemainingCapacity c = capacity c - len (data c)"

subsection \<open>Get, Set, Evict\<close>

text \<open>
  On byte lists \<^verbatim>\<open>append([]byte(nil), x...)\<close> is \<open>x\<close>. The bindings \<open>v\<close> and
  \<open>copied_val\<close> are kept, so that each definition reads like its source: in \<open>Set\<close>
  the overwritten entry gets \<open>v\<close> and a new entry gets \<open>val\<close>, as written there.
\<close>

definition Get :: "bytes \<Rightarrow> bytes Cache \<Rightarrow> (bytes \<times> bool \<times> error option) \<times> bytes Cache" where
  "Get key c =
     (let k = makeKey key in
      case fmlookup (data c) k of
        Some e \<Rightarrow>
          (let copied_val = value e;
               c1 = c\<lparr>stats := CacheHit (stats c)\<rparr>
           in ((copied_val, True, None), c1))
      | None \<Rightarrow>
          (let c1 = c\<lparr>stats := CacheMiss (stats c)\<rparr>;
               ((val, err), d) = db_Get key (db c1);
               c2 = c1\<lparr>db := d\<rparr>
           in if err = Some ErrNotFound then (([], False, None), c2)
              else if err \<noteq> None then (([], False, err), c2)
              else (let copied_val = val in ((copied_val, True, None), c2))))"

definition Set :: "bytes \<Rightarrow> bytes \<Rightarrow> bool \<Rightarrow> bytes Cache \<Rightarrow> (bool \<times> error option) \<times> bytes Cache" where
  "Set key val addToCache c =
     (let k = makeKey key;
          v = val
      in case fmlookup (data c) k of
        Some e \<Rightarrow>
          (let c1 = c\<lparr>stats := CacheHit (stats c)\<rparr>;
               (now, c2) = time_Now c1;
               e1 = e\<lparr>last_updated := now\<rparr>;
               e2 = e1\<lparr>size' := int (length v)\<rparr>;
               e3 = e2\<lparr>value := v\<rparr>
           in ((True, None), c2\<lparr>data := fmupd k e3 (data c2)\<rparr>))
      | None \<Rightarrow>
          (let c1 = c\<lparr>stats := CacheMiss (stats c)\<rparr>
           in if addToCache \<and> len (data c1) < capacity c1 then
                (let (t1, c2) = time_Now c1;
                     (t2, c3) = time_Now c2;
                     en = \<lparr>value = val, size' = int (length v), first_inserted = t1,
                           last_updated = t2\<rparr>
                 in ((True, None), c3\<lparr>data := fmupd k en (data c3)\<rparr>))
              else
                (let (err, d) = db_Set key val Sync (db c1);
                     c2 = c1\<lparr>db := d\<rparr>
                 in if err \<noteq> None then ((False, err), c2) else ((False, None), c2))))"

definition Evict :: "bytes \<Rightarrow> bytes Cache \<Rightarrow> (bool \<times> error option) \<times> bytes Cache" where
  "Evict key c =
     (let k = makeKey key in
      case fmlookup (data c) k of
        None \<Rightarrow> ((False, None), c)
      | Some e \<Rightarrow>
          (let c1 = c\<lparr>data := fmdrop k (data c)\<rparr>;
               copied_val = value e;
               (err, d) = db_Set k copied_val Sync (db c1);
               c2 = c1\<lparr>db := d\<rparr>
           in if err \<noteq> None then ((False, err), c2)
              else ((True, None), c2\<lparr>stats := CacheEvict (stats c2)\<rparr>)))"

subsection \<open>Prefetch\<close>

text \<open>The first loop of \<^verbatim>\<open>Prefetch\<close>: \<open>seen\<close> is the set of keys met so far.\<close>

fun dedup_loop :: "bytes list \<Rightarrow> string set \<Rightarrow> string list \<Rightarrow> string list" where
  "dedup_loop [] seen stringKeys = stringKeys"
| "dedup_loop (kb # keys) seen stringKeys =
     (let k = makeKey kb in
      if k \<in> seen then dedup_loop keys seen stringKeys
      else dedup_loop keys (insert k seen) (stringKeys @ [k]))"

text \<open>
  The second loop. The residency check is made twice in the source, before and after the
  read of the store; both are kept.
\<close>

fun prefetch_loop :: "string list \<Rightarrow> int \<Rightarrow> bytes Cache \<Rightarrow> (int \<times> error option) \<times> bytes Cache" where
  "prefetch_loop [] successes c = ((successes, None), c)"
| "prefetch_loop (k # ks) successes c =
     (case fmlookup (data c) k of
        Some _ \<Rightarrow> prefetch_loop ks (successes + 1) c
      | None \<Rightarrow>
          (let ((val, err), d) = db_Get k (db c);
               c1 = c\<lparr>db := d\<rparr>
           in if err = Some ErrNotFound then prefetch_loop ks successes c1
              else if err \<noteq> None then ((successes, err), c1)
              else
                (let copied_val = val in
                 case fmlookup (data c1) k of
                   Some _ \<Rightarrow> prefetch_loop ks (successes + 1) c1
                 | None \<Rightarrow>
                     if RemainingCapacity c1 = 0 then prefetch_loop ks successes c1
                     else
                       (let (t1, c2) = time_Now c1;
                            (t2, c3) = time_Now c2;
                            en = \<lparr>value = copied_val, size' = int (length copied_val),
                                  first_inserted = t1, last_updated = t2\<rparr>
                        in prefetch_loop ks (successes + 1)
                             (c3\<lparr>data := fmupd k en (data c3)\<rparr>)))))"

definition Prefetch :: "bytes list \<Rightarrow> bytes Cache \<Rightarrow> (int \<times> error option) \<times> bytes Cache" where
  "Prefetch keys c = prefetch_loop (dedup_loop keys {} []) 0 c"

subsection \<open>A caller\<close>

text \<open>
  The six public operations, as a caller issues them one after the other, and the cache
  after a sequence of calls. \<^verbatim>\<open>RemainingCapacity\<close> only reads.
\<close>

datatype op =
  OpGet bytes
| OpSet bytes bytes bool
| OpEvict bytes
| OpPrefetch "bytes list"
| OpRemainingCapacity
| OpClose

fun apply_op :: "op \<Rightarrow> bytes Cache \<Rightarrow> bytes Cache" where
  "apply_op (OpGet key) c = snd (Get key c)"
| "apply_op (OpSet key val addToCache) c = snd (Set key val addToCache c)"
| "apply_op (OpEvict key) c = snd (Evict key c)"
| "apply_op (OpPrefetch keys) c = snd (Prefetch keys c)"
| "apply_op OpRemainingCapacity c = c"
| "apply_op OpClose c = snd (Close c)"

fun run :: "op list \<Rightarrow> bytes Cache \<Rightarrow> bytes Cache" where
  "run [] c = c"
| "run (x # xs) c = run xs (apply_op x c)"

subsection \<open>Slices and the memory they share\<close>

text \<open>
  With byte lists for values, storing a slice and storing a copy of it are the same thing.
  They differ once the caller writes to a slice it has passed in or got back. For that
  question \<^verbatim>\<open>Set\<close> and \<^verbatim>\<open>Get\<close> are embedded a second time, over an explicit
  memory: a slice is \<open>None\<close> (nil) or the address of the array it views, and
  \<^verbatim>\<open>append([]byte(nil), xs...)\<close> allocates a fresh array, or returns nil when there is
  nothing to copy. The package never re-slices, so an address stands for the whole
  array. The database copies what it is given and hands out bytes that the package
  copies before use, so it keeps byte lists.
\<close>

type_synonym addr = nat
type_synonym heap = "bytes list"
type_synonym slice = "addr option"

definition bytes_of :: "heap \<Rightarrow> slice \<Rightarrow> bytes" where
  "bytes_of h s = (case s of None \<Rightarrow> [] | Some a \<Rightarrow> h ! a)"

definition append_nil :: "bytes \<Rightarrow> heap \<Rightarrow> slice \<times> heap" where
  "append_nil xs h = (if xs = [] then (None, h) else (Some (length h), h @ [xs]))"

text \<open>The caller's assignment \<^verbatim>\<open>s[i] = b\<close>, for \<open>i\<close> in range.\<close>

definition write_byte :: "slice \<Rightarrow> nat \<Rightarrow> char \<Rightarrow> heap \<Rightarrow> heap" where
  "write_byte s i b h = (case s of None \<Rightarrow> h | Some a \<Rightarrow> h[a := (h ! a)[i := b]])"

definition Get_ref ::
  "bytes \<Rightarrow> slice Cache \<times> heap \<Rightarrow> (slice \<times> bool \<times> error option) \<times> slice Cache \<times> heap" where
  "Get_ref key ch =
     (let (c, h) = ch;
          k = makeKey key
      in case fmlookup (data c) k of
        Some e \<Rightarrow>
          (let (copied_val, h1) = append_nil (bytes_of h (value e)) h;
               c1 = c\<lparr>stats := CacheHit (stats c)\<rparr>
           in ((copied_val, True, None), c1, h1))
      | None \<Rightarrow>
          (let c1 = c\<lparr>stats := CacheMiss (stats c)\<rparr>;
               ((val, err), d) = db_Get key (db c1);
               c2 = c1\<lparr>db := d\<rparr>
           in if err = Some ErrNotFound then ((None, False, None), c2, h)
              else if err \<noteq> None then ((None, False, err), c2, h)
              else (let (copied_val, h1) = append_nil val h
                    in ((copied_val, True, None), c2, h1))))"

definition Set_ref ::
  "bytes \<Rightarrow> slice \<Rightarrow> bool \<Rightarrow> slice Cache \<times> heap \<Rightarrow> (bool \<times> error option) \<times> slice Cache \<times> heap" where
  "Set_ref key val addToCache ch =
     (let (c, h0) = ch;
          k = makeKey key;
          (v, h) = append_nil (bytes_of h0 val) h0
      in case fmlookup (data c) k of
        Some e \<Rightarrow>
          (let c1 = c\<lparr>stats := CacheHit (stats c)\<rparr>;
               (now, c2) = time_Now c1;
               e1 = e\<lparr>last_updated := now\<rparr>;
               e2 = e1\<lparr>size' := int (length (bytes_of h v))\<rparr>;
               e3 = e2\<lparr>value := v\<rparr>
           in ((True, None), c2\<lparr>data := fmupd k e3 (data c2)\<rparr>, h))
      | None \<Rightarrow>
          (let c1 = c\<lparr>stats := CacheMiss (stats c)\<rparr>
           in if addToCache \<and> len (data c1) < capacity c1 then
                (let (t1, c2) = time_Now c1;
                     (t2, c3) = time_Now c2;
                     en = \<lparr>value = val, size' = int (length (bytes_of h v)),
                           first_inserted = t1, last_updated = t2\<rparr>
                 in ((True, None), c3\<lparr>data := fmupd k en (data c3)\<rparr>, h))
              else
                (let (err, d) = db_Set key (bytes_of h val) Sync (db c1);
                     c2 = c1\<lparr>db := d\<rparr>
                 in if err \<noteq> None then ((False, err), c2, h) else ((False, None), c2, h))))"

text \<open>
  A slice is sound in a memory when it is nil or refers to an allocated array; a cache
  is sound in a memory when the slices of its entries are. The view of a cache in a
  memory reads every entry's bytes.
\<close>

definition slice_ok :: "heap \<Rightarrow> slice \<Rightarrow> bool" where
  "slice_ok h s = (case s of None \<Rightarrow> True | Some a \<Rightarrow> a < length h)"

definition heap_ok :: "slice Cache \<times> heap \<Rightarrow> bool" where
  "heap_ok ch = fmpred (\<lambda>k e. slice_ok (snd ch) (value e)) (data (fst ch))"

definition view_entry :: "heap \<Rightarrow> slice CacheEntry \<Rightarrow> bytes CacheEntry" where
  "view_entry h e =
     \<lparr>value = bytes_of h (value e), size' = size' e, first_inserted = first_inserted e,
      last_updated = last_updated e\<rparr>"

definition view :: "slice Cache \<times> heap \<Rightarrow> bytes Cache" where
  "view ch =
     \<lparr>data = fmmap (view_entry (snd ch)) (data (fst ch)), capacity = capacity (fst ch),
      stats = stats (fst ch), db = db (fst ch), clock = clock (fst ch)\<rparr>"

text \<open>What the table holds for a key, read through the memory.\<close>

definition contents :: "heap \<Rightarrow> slice Cache \<Rightarrow> string \<Rightarrow> bytes option" where
  "contents h c k = map_option (\<lambda>e. bytes_of h (value e)) (fmlookup (data c) k)"

subsection \<open>Notions used to state the properties\<close>

text \<open>The table holds no more entries than the capacity allows.\<close>

definition within_capacity :: "'v Cache \<Rightarrow> bool" where
  "within_capacity c = (len (data c) \<le> capacity c)"

text \<open>The handle is open and none of the next \<open>n\<close> calls of the store fails.\<close>

definition store_ready :: "nat \<Rightarrow> DB \<Rightarrow> bool" where
  "store_ready n d = (\<not> closed d \<and> list_all (\<lambda>f. f = None) (take n (faults d)))"

text \<open>
  De-duplication that keeps the first occurrence of every element, in the order of the
  input: the head stays, and its later copies are dropped from the rest.
\<close>

fun first_occurrences :: "'a list \<Rightarrow> 'a list" where
  "first_occurrences [] = []"
| "first_occurrences (x # xs) = x # first_occurrences (filter (\<lambda>y. y \<noteq> x) xs)"

subsection \<open>Example data\<close>

text \<open>
  A store that holds \<open>''C''\<close> and never fails, one whose next call fails, a clock that
  reads 0, 10, 20, ..., and caches of capacity 2 over them.
\<close>

definition demo_db :: DB where
  "demo_db = \<lparr>kv = [''C'' \<mapsto> ''3''], durable = [''C'' \<mapsto> ''3''], closed = False, faults = []\<rparr>"

definition faulty_db :: DB where
  "faulty_db = demo_db\<lparr>faults := [Some ''disk'']\<rparr>"

definition demo_clock :: "time stream" where
  "demo_clock = siterate (\<lambda>t. t + 10) 0"

definition demo_cache :: "bytes Cache" where
  "demo_cache = CreateCache demo_db 2 demo_clock"

definition faulty_cache :: "bytes Cache" where
  "faulty_cache = CreateCache faulty_db 2 demo_clock"

definition demo_cache_ref :: "slice Cache" where
  "demo_cache_ref = CreateCache demo_db 2 demo_clock"

text \<open>
  The caches after \<open>''A''\<close> has been admitted, and after \<open>''A''\<close> and \<open>''B''\<close> have;
  the entries these calls create; the store after \<open>''A''\<close> has been written back.
\<close>

definition demo_cache_A :: "bytes Cache" where
  "demo_cache_A = snd (Set ''A'' ''1'' True demo_cache)"

definition faulty_cache_A :: "bytes Cache" where
  "faulty_cache_A = snd (Set ''A'' ''1'' True faulty_cache)"

definition full_cache :: "bytes Cache" where
  "full_cache = run [OpSet ''A'' ''1'' True, OpSet ''B'' ''2'' True] demo_cache"

definition entry_A :: "bytes CacheEntry" where
  "entry_A = \<lparr>value = ''1'', size' = 1, first_inserted = 0, last_updated = 10\<rparr>"

definition entry_B :: "bytes CacheEntry" where
  "entry_B = \<lparr>value = ''2'', size' = 1, first_inserted = 20, last_updated = 30\<rparr>"

definition demo_db_A :: DB where
  "demo_db_A = demo_db\<lparr>kv := [''C'' \<mapsto> ''3'', ''A'' \<mapsto> ''1''],
                        durable := [''C'' \<mapsto> ''3'', ''A'' \<mapsto> ''1'']\<rparr>"

text \<open>The store after \<open>''D''\<close> has been written through.\<close>

definition demo_db_D :: DB where
  "demo_db_D = demo_db\<lparr>kv := [''C'' \<mapsto> ''3'', ''D'' \<mapsto> ''4''],
                        durable := [''C'' \<mapsto> ''3'', ''D'' \<mapsto> ''4'']\<rparr>"

text \<open>A caller's buffer in memory, and the cache after the caller has set it twice.\<close>

definition caller_heap :: heap where
  "caller_heap = [''abc'']"

definition caller_buf :: slice where
  "caller_buf = Some 0"

definition inserted :: "slice Cache \<times> heap" where
  "inserted = snd (Set_ref ''K'' caller_buf True (demo_cache_ref, caller_heap))"

definition overwritten :: "slice Cache \<times> heap" where
  "overwritten = snd (Set_ref ''K'' caller_buf True inserted)"

section \<open>Basic facts\<close>

subsection \<open>The size of the table\<close>

lemma len_fmempty [simp]: "len fmempty = 0"
  by (simp add: len_def fcard_fempty)

lemma len_nonneg [simp]: "0 \<le> len m"
  by (simp add: len_def)

lemma len_fmupd:
  "len (fmupd k e m) = (if fmlookup m k = None then len m + 1 else len m)"
  by (auto simp: len_def fcard_finsert_if fmlookup_dom_iff)

lemma len_fmdrop:
  "len (fmdrop k m) = (if fmlookup m k = None then len m else len m - 1)"
proof (cases "fmlookup m k")
  case None
  then have "fmdrop k m = m"
    by (simp add: fmdrop_idle fmdom_notI)
  with None show ?thesis by simp
next
  case (Some e)
  then have in_dom: "k |\<in>| fmdom m" by (rule fmdomI)
  then have "fcard (fmdom m |-| {|k|}) < fcard (fmdom m)"
    by (rule fcard_fminus1_less)
  moreover from in_dom have "fcard (fmdom m |-| {|k|}) = fcard (fmdom m) - 1"
    by (simp add: fcard_fminus_fsingleton)
  ultimately have "int (fcard (fmdom m |-| {|k|})) = int (fcard (fmdom m)) - 1"
    by linarith
  with Some show ?thesis by (simp add: len_def)
qed

subsection \<open>The store\<close>

lemma db_Set_ready:
  "store_ready (Suc n) d \<Longrightarrow>
   db_Set key val opts d =
     (None, d\<lparr>faults := tl (faults d), kv := (kv d)(key \<mapsto> val),
               durable := (if opts = Sync then (kv d)(key \<mapsto> val) else durable d)\<rparr>)"
  by (cases "faults d") (auto simp: store_ready_def db_Set_def next_fault_def Let_def)

lemma db_Get_ready:
  "store_ready (Suc n) d \<Longrightarrow>
   db_Get key d =
     ((case kv d key of None \<Rightarrow> ([], Some ErrNotFound) | Some v \<Rightarrow> (v, None)),
      d\<lparr>faults := tl (faults d)\<rparr>)"
  by (cases "faults d")
     (auto simp: store_ready_def db_Get_def next_fault_def split: option.splits)

lemma store_ready_tl:
  "store_ready (Suc n) d \<Longrightarrow> store_ready n (d\<lparr>faults := tl (faults d)\<rparr>)"
  by (cases "faults d") (auto simp: store_ready_def)

lemma store_ready_upd [simp]:
  "store_ready n (d\<lparr>kv := m\<rparr>) = store_ready n d"
  "store_ready n (d\<lparr>durable := m'\<rparr>) = store_ready n d"
  by (simp_all add: store_ready_def)

lemma db_Set_success:
  "db_Set key val opts d = (None, d') \<Longrightarrow>
   kv d' key = Some val \<and> (opts = Sync \<longrightarrow> durable d' key = Some val)"
  by (auto simp: db_Set_def next_fault_def Let_def split: if_splits list.splits option.splits)

subsection \<open>What each operation leaves alone\<close>

lemma Get_frame:
  "data (snd (Get key c)) = data c"
  "capacity (snd (Get key c)) = capacity c"
  "prefetches (stats (snd (Get key c))) = prefetches (stats c)"
  "additions (stats (snd (Get key c))) = additions (stats c)"
  by (auto simp: Get_def Let_def CacheHit_def CacheMiss_def split: option.splits prod.splits)

lemma Set_frame:
  "capacity (snd (Set key val a c)) = capacity c"
  "prefetches (stats (snd (Set key val a c))) = prefetches (stats c)"
  "additions (stats (snd (Set key val a c))) = additions (stats c)"
  by (auto simp: Set_def Let_def time_Now_def CacheHit_def CacheMiss_def
           split: option.splits prod.splits)

lemma Evict_frame:
  "capacity (snd (Evict key c)) = capacity c"
  "prefetches (stats (snd (Evict key c))) = prefetches (stats c)"
  "additions (stats (snd (Evict key c))) = additions (stats c)"
  by (auto simp: Evict_def Let_def CacheEvict_def split: option.splits prod.splits)

lemma prefetch_loop_frame:
  "capacity (snd (prefetch_loop ks n c)) = capacity c \<and>
   stats (snd (prefetch_loop ks n c)) = stats c"
  by (induction ks n c rule: prefetch_loop.induct)
     (auto simp: Let_def time_Now_def split: option.splits prod.splits)

lemma Close_frame:
  "data (snd (Close c)) = data c"
  "capacity (snd (Close c)) = capacity c"
  "stats (snd (Close c)) = stats c"
  by (auto simp: Close_def split: prod.splits)

lemma apply_op_capacity: "capacity (apply_op x c) = capacity c"
  by (cases x)
     (simp_all add: Get_frame Set_frame Evict_frame Close_frame Prefetch_def prefetch_loop_frame)

lemma run_capacity: "capacity (run ops c) = capacity c"
  by (induction ops arbitrary: c) (simp_all add: apply_op_capacity)

lemma apply_op_counters:
  "prefetches (stats (apply_op x c)) = prefetches (stats c) \<and>
   additions (stats (apply_op x c)) = additions (stats c)"
  by (cases x)
     (simp_all add: Get_frame Set_frame Evict_frame Close_frame Prefetch_def prefetch_loop_frame)

lemma run_counters:
  "prefetches (stats (run ops c)) = prefetches (stats c) \<and>
   additions (stats (run ops c)) = additions (stats c)"
  by (induction ops arbitrary: c) (simp_all add: apply_op_counters)

subsection \<open>One call at a time\<close>

lemma Get_resident:
  "fmlookup (data c) (makeKey key) = Some e \<Longrightarrow>
   Get key c = ((value e, True, None), c\<lparr>stats := CacheHit (stats c)\<rparr>)"
  by (simp add: Get_def Let_def)

lemma Get_not_resident:
  "fmlookup (data c) (makeKey key) = None \<Longrightarrow> db_Get key (db c) = ((v, err), d) \<Longrightarrow>
   Get key c =
     ((if err = None then (v, True, None)
       else if err = Some ErrNotFound then ([], False, None) else ([], False, err)),
      c\<lparr>stats := CacheMiss (stats c), db := d\<rparr>)"
  by (simp add: Get_def Let_def)

lemma Set_resident:
  "fmlookup (data c) (makeKey key) = Some e \<Longrightarrow>
   Set key val a c =
     ((True, None),
      c\<lparr>stats := CacheHit (stats c), clock := stl (clock c),
        data := fmupd (makeKey key)
                 (e\<lparr>last_updated := shd (clock c), size' := int (length val), value := val\<rparr>)
                 (data c)\<rparr>)"
  by (simp add: Set_def Let_def time_Now_def)

lemma Set_admit:
  "fmlookup (data c) (makeKey key) = None \<Longrightarrow> a \<Longrightarrow> len (data c) < capacity c \<Longrightarrow>
   Set key val a c =
     ((True, None),
      c\<lparr>stats := CacheMiss (stats c), clock := stl (stl (clock c)),
        data := fmupd (makeKey key)
                 \<lparr>value = val, size' = int (length val), first_inserted = shd (clock c),
                  last_updated = shd (stl (clock c))\<rparr>
                 (data c)\<rparr>)"
  by (simp add: Set_def Let_def time_Now_def)

lemma Set_store:
  "fmlookup (data c) (makeKey key) = None \<Longrightarrow> \<not> a \<or> capacity c \<le> len (data c) \<Longrightarrow>
   db_Set key val Sync (db c) = (err, d) \<Longrightarrow>
   Set key val a c = ((False, err), c\<lparr>stats := CacheMiss (stats c), db := d\<rparr>)"
  by (auto simp: Set_def Let_def)

lemma Evict_not_resident:
  "fmlookup (data c) (makeKey key) = None \<Longrightarrow> Evict key c = ((False, None), c)"
  by (simp add: Evict_def)

lemma Evict_resident:
  "fmlookup (data c) (makeKey key) = Some e \<Longrightarrow>
   db_Set (makeKey key) (value e) Sync (db c) = (err, d) \<Longrightarrow>
   Evict key c =
     (if err = None
      then ((True, None),
            c\<lparr>data := fmdrop (makeKey key) (data c), db := d, stats := CacheEvict (stats c)\<rparr>)
      else ((False, err), c\<lparr>data := fmdrop (makeKey key) (data c), db := d\<rparr>))"
  by (simp add: Evict_def Let_def)

lemma Evict_removes: "fmlookup (data (snd (Evict key c))) (makeKey key) = None"
  by (auto simp: Evict_def Let_def split: option.splits prod.splits)

lemma loop_resident:
  "fmlookup (data c) k = Some e \<Longrightarrow> prefetch_loop (k # ks) n c = prefetch_loop ks (n + 1) c"
  by simp

lemma loop_not_found:
  "fmlookup (data c) k = None \<Longrightarrow> db_Get k (db c) = ((v, Some ErrNotFound), d) \<Longrightarrow>
   prefetch_loop (k # ks) n c = prefetch_loop ks n (c\<lparr>db := d\<rparr>)"
  by simp

lemma loop_error:
  "fmlookup (data c) k = None \<Longrightarrow> db_Get k (db c) = ((v, Some err), d) \<Longrightarrow>
   err \<noteq> ErrNotFound \<Longrightarrow>
   prefetch_loop (k # ks) n c = ((n, Some err), c\<lparr>db := d\<rparr>)"
  by simp

lemma loop_full:
  "fmlookup (data c) k = None \<Longrightarrow> db_Get k (db c) = ((v, None), d) \<Longrightarrow>
   RemainingCapacity c = 0 \<Longrightarrow>
   prefetch_loop (k # ks) n c = prefetch_loop ks n (c\<lparr>db := d\<rparr>)"
  by (simp add: RemainingCapacity_def)

lemma loop_admit:
  "fmlookup (data c) k = None \<Longrightarrow> db_Get k (db c) = ((v, None), d) \<Longrightarrow>
   RemainingCapacity c \<noteq> 0 \<Longrightarrow>
   prefetch_loop (k # ks) n c =
     prefetch_loop ks (n + 1)
       (c\<lparr>db := d, clock := stl (stl (clock c)),
          data := fmupd k \<lparr>value = v, size' = int (length v), first_inserted = shd (clock c),
                           last_updated = shd (stl (clock c))\<rparr> (data c)\<rparr>)"
  by (simp add: RemainingCapacity_def Let_def time_Now_def)

subsection \<open>The capacity bound, step by step\<close>

lemma Set_within: "within_capacity c \<Longrightarrow> within_capacity (snd (Set key val a c))"
  by (auto simp: within_capacity_def Set_def Let_def time_Now_def len_fmupd
           split: option.splits prod.splits)

lemma Set_new_key:
  "k' |\<notin>| fmdom (data c) \<Longrightarrow> k' |\<in>| fmdom (data (snd (Set key val a c))) \<Longrightarrow>
   len (data c) < capacity c"
  by (auto simp: Set_def Let_def time_Now_def split: option.splits prod.splits if_splits
           dest: fmdomI)

lemma Evict_within: "within_capacity c \<Longrightarrow> within_capacity (snd (Evict key c))"
  by (auto simp: within_capacity_def Evict_def Let_def len_fmdrop
           split: option.splits prod.splits)

lemma prefetch_loop_within:
  "within_capacity c \<Longrightarrow> within_capacity (snd (prefetch_loop ks n c))"
proof (induction ks arbitrary: n c)
  case Nil
  then show ?case by simp
next
  case (Cons k ks)
  have step: "within_capacity c' \<Longrightarrow> within_capacity (snd (prefetch_loop ks n' c'))" for n' c'
    by (rule Cons.IH)
  from Cons.prems show ?case
    by (auto simp: Let_def time_Now_def split: option.splits prod.splits intro!: step)
       (auto simp: within_capacity_def len_fmupd RemainingCapacity_def)
qed

lemma prefetch_loop_full:
  "RemainingCapacity c = 0 \<Longrightarrow> data (snd (prefetch_loop ks n c)) = data c"
proof (induction ks arbitrary: n c)
  case Nil
  then show ?case by simp
next
  case (Cons k ks)
  have step: "data (snd (prefetch_loop ks n' c')) = data c'"
    if "RemainingCapacity c' = 0" for n' c'
    using that by (rule Cons.IH)
  have db_upd: "RemainingCapacity (c\<lparr>db := d\<rparr>) = 0" for d
    using Cons.prems by (simp add: RemainingCapacity_def)
  from Cons.prems show ?case
    by (simp add: Let_def step db_upd split: option.splits prod.splits)
qed

lemma prefetch_loop_new_key:
  assumes "within_capacity c" and "k' |\<notin>| fmdom (data c)"
    and "k' |\<in>| fmdom (data (snd (prefetch_loop ks n c)))"
  shows "len (data c) < capacity c"
proof (rule ccontr)
  assume "\<not> len (data c) < capacity c"
  with assms(1) have "RemainingCapacity c = 0"
    by (simp add: within_capacity_def RemainingCapacity_def)
  then have "data (snd (prefetch_loop ks n c)) = data c"
    by (rule prefetch_loop_full)
  with assms(2,3) show False by simp
qed

lemma apply_op_within: "within_capacity c \<Longrightarrow> within_capacity (apply_op x c)"
proof (cases x)
  case (OpGet key)
  assume "within_capacity c"
  with OpGet show ?thesis by (simp add: within_capacity_def Get_frame)
next
  case (OpSet key val a)
  assume "within_capacity c"
  with OpSet show ?thesis by (simp add: Set_within)
next
  case (OpEvict key)
  assume "within_capacity c"
  with OpEvict show ?thesis by (simp add: Evict_within)
next
  case (OpPrefetch keys)
  assume "within_capacity c"
  with OpPrefetch show ?thesis by (simp add: Prefetch_def prefetch_loop_within)
next
  case OpRemainingCapacity
  assume "within_capacity c"
  with OpRemainingCapacity show ?thesis by simp
next
  case OpClose
  assume "within_capacity c"
  with OpClose show ?thesis by (simp add: within_capacity_def Close_frame)
qed

lemma run_within: "within_capacity c \<Longrightarrow> within_capacity (run ops c)"
  by (induction ops arbitrary: c) (simp_all add: apply_op_within)

subsection \<open>Evaluating the examples\<close>

lemmas demo_defs =
  demo_db_def faulty_db_def demo_clock_def demo_cache_def demo_cache_ref_def CreateCache_def
  CreateStatistics_def faulty_cache_def demo_cache_A_def faulty_cache_A_def full_cache_def
  entry_A_def entry_B_def demo_db_A_def demo_db_D_def

lemmas op_defs =
  Get_def Set_def Evict_def Prefetch_def Close_def RemainingCapacity_def makeKey_def
  time_Now_def CacheHit_def CacheMiss_def CacheEvict_def db_Get_def db_Set_def db_Close_def
  next_fault_def store_ready_def Let_def len_fmupd len_fmdrop

lemmas ref_defs =
  Set_ref_def Get_ref_def contents_def bytes_of_def append_nil_def write_byte_def
  caller_heap_def caller_buf_def inserted_def overwritten_def

text \<open>
  The bound on the table needs a capacity that is not negative: \<open>prefetch_loop\<close> skips a
  key only when the remaining capacity is exactly 0, and \<open>CreateCache\<close> accepts any
  capacity.
\<close>

lemma negative_capacity_is_exceeded:
  "len (data (snd (Prefetch [''C''] (CreateCache demo_db (- 1) demo_clock)))) = 1"
  by (simp add: demo_defs op_defs)

subsection \<open>Slices: what is copied, and how the two embeddings agree\<close>

lemma heap_ok_iff:
  "heap_ok (c, h) \<longleftrightarrow> (\<forall>k e. fmlookup (data c) k = Some e \<longrightarrow> slice_ok h (value e))"
  by (auto simp: heap_ok_def fmpred_iff)

lemma bytes_of_None [simp]: "bytes_of h None = []"
  by (simp add: bytes_of_def)

lemma bytes_of_append: "slice_ok h s \<Longrightarrow> bytes_of (h @ hs) s = bytes_of h s"
  by (auto simp: slice_ok_def bytes_of_def nth_append split: option.splits)

lemma slice_ok_append: "slice_ok h s \<Longrightarrow> slice_ok (h @ hs) s"
  by (auto simp: slice_ok_def split: option.splits)

lemma heap_ok_append: "heap_ok (c, h) \<Longrightarrow> heap_ok (c, h @ hs)"
  by (auto simp: heap_ok_iff intro: slice_ok_append)

text \<open>A write through one slice does not change what another slice views.\<close>

lemma write_byte_other: "s \<noteq> t \<Longrightarrow> bytes_of (write_byte s i b h) t = bytes_of h t"
  by (cases s; cases t) (simp_all add: write_byte_def bytes_of_def)

lemma write_byte_nil [simp]: "write_byte None i b h = h"
  by (simp add: write_byte_def)

lemma length_write_byte [simp]: "length (write_byte s i b h) = length h"
  by (simp add: write_byte_def split: option.splits)

text \<open>The copy: its bytes, and why no slice that was sound before can be the copy.\<close>

lemma append_nil_view:
  assumes "append_nil xs h = (v, h1)"
  shows "bytes_of h1 v = xs" and "slice_ok h1 v" and "\<exists>hs. h1 = h @ hs"
    and "v = None \<or> v = Some (length h)"
  using assms by (auto simp: append_nil_def bytes_of_def slice_ok_def split: if_splits)

lemma fresh_not_sound: "slice_ok h s \<Longrightarrow> s \<noteq> Some (length h)"
  by (auto simp: slice_ok_def)

text \<open>The three paths that touch an entry's bytes.\<close>

lemma Set_ref_insert_keeps_slice:
  "fmlookup (data c) (makeKey key) = None \<Longrightarrow> len (data c) < capacity c \<Longrightarrow>
   map_option value (fmlookup (data (fst (snd (Set_ref key val True (c, h))))) (makeKey key))
     = Some val"
  by (simp add: Set_ref_def Let_def time_Now_def split: prod.splits)

lemma Set_ref_resident:
  "fmlookup (data c) (makeKey key) = Some e \<Longrightarrow>
   Set_ref key val a (c, h) =
     ((True, None),
      c\<lparr>stats := CacheHit (stats c), clock := stl (clock c),
        data := fmupd (makeKey key)
                 (e\<lparr>last_updated := shd (clock c), size' := int (length (bytes_of h val)),
                    value := fst (append_nil (bytes_of h val) h)\<rparr>)
                 (data c)\<rparr>,
      snd (append_nil (bytes_of h val) h))"
  by (simp add: Set_ref_def Let_def time_Now_def case_prod_beta append_nil_def bytes_of_def)

lemma Set_ref_overwrite_owned:
  assumes "fmlookup (data c) (makeKey key) = Some e" and "slice_ok h s"
  shows "contents (write_byte s i b (snd (snd (Set_ref key val a (c, h)))))
                  (fst (snd (Set_ref key val a (c, h)))) (makeKey key)
           = Some (bytes_of h val)"
proof -
  obtain v h1 where ap: "append_nil (bytes_of h val) h = (v, h1)"
    by (cases "append_nil (bytes_of h val) h")
  note v = append_nil_view[OF ap]
  have "s \<noteq> v \<or> v = None"
    using v(4) fresh_not_sound[OF assms(2)] by auto
  then have "bytes_of (write_byte s i b h1) v = bytes_of h1 v"
    by (auto simp: write_byte_other)
  with v(1) ap Set_ref_resident[OF assms(1), of val a h] show ?thesis
    by (simp add: contents_def)
qed

lemma Get_ref_resident:
  "fmlookup (data c) (makeKey key) = Some e \<Longrightarrow>
   Get_ref key (c, h) =
     ((fst (append_nil (bytes_of h (value e)) h), True, None),
      c\<lparr>stats := CacheHit (stats c)\<rparr>, snd (append_nil (bytes_of h (value e)) h))"
  by (simp add: Get_ref_def Let_def case_prod_beta)

lemma Get_ref_not_resident:
  "fmlookup (data c) (makeKey key) = None \<Longrightarrow> db_Get key (db c) = ((v, err), d) \<Longrightarrow>
   Get_ref key (c, h) =
     (if err = None
      then ((fst (append_nil v h), True, None), c\<lparr>stats := CacheMiss (stats c), db := d\<rparr>,
            snd (append_nil v h))
      else if err = Some ErrNotFound
      then ((None, False, None), c\<lparr>stats := CacheMiss (stats c), db := d\<rparr>, h)
      else ((None, False, err), c\<lparr>stats := CacheMiss (stats c), db := d\<rparr>, h))"
  by (simp add: Get_ref_def Let_def case_prod_beta)

lemma Get_ref_result_private:
  assumes "heap_ok (c, h)" and "fmlookup (data c) (makeKey key) = Some e"
  shows "contents (write_byte (fst (fst (Get_ref key (c, h)))) i b (snd (snd (Get_ref key (c, h)))))
                  (fst (snd (Get_ref key (c, h)))) k
           = contents h c k"
proof -
  obtain r h1 where ap: "append_nil (bytes_of h (value e)) h = (r, h1)"
    by (cases "append_nil (bytes_of h (value e)) h")
  from append_nil_view[OF ap] obtain hs where r: "r = None \<or> r = Some (length h)"
    and h1: "h1 = h @ hs"
    by blast
  have "bytes_of (write_byte r i b h1) (value e') = bytes_of h (value e')"
    if "fmlookup (data c) k = Some e'" for e'
  proof -
    from assms(1) that have ok: "slice_ok h (value e')"
      by (auto simp: heap_ok_iff)
    with r have "r \<noteq> value e' \<or> r = None"
      using fresh_not_sound[OF ok] by auto
    then have "bytes_of (write_byte r i b h1) (value e') = bytes_of h1 (value e')"
      by (auto simp: write_byte_other)
    with ok show ?thesis by (simp add: h1 bytes_of_append)
  qed
  with ap Get_ref_resident[OF assms(2), of h] show ?thesis
    by (cases "fmlookup (data c) k") (simp_all add: contents_def)
qed

text \<open>
  The two embeddings agree: the view of the state after \<open>Set_ref\<close> or \<open>Get_ref\<close> is the
  state after \<open>Set\<close> or \<open>Get\<close> on the view, as long as nobody writes to memory between
  the calls.
\<close>

lemma view_of_update: "fmmap g (fmupd key e tbl) = fmupd key (g e) (fmmap g tbl)"
proof (rule fmap_ext)
  fix x
  show "fmlookup (fmmap g (fmupd key e tbl)) x = fmlookup (fmupd key (g e) (fmmap g tbl)) x"
    by simp
qed

lemma len_fmmap [simp]: "len (fmmap f m) = len m"
  by (simp add: len_def)

lemma view_data_append:
  assumes "heap_ok (c, h)"
  shows "fmmap (view_entry (h @ hs)) (data c) = fmmap (view_entry h) (data c)"
proof (rule fmap_ext)
  fix x
  show "fmlookup (fmmap (view_entry (h @ hs)) (data c)) x
      = fmlookup (fmmap (view_entry h) (data c)) x"
  proof (cases "fmlookup (data c) x")
    case None
    then show ?thesis by simp
  next
    case (Some e)
    with assms have "slice_ok h (value e)" by (simp add: heap_ok_iff)
    with Some show ?thesis by (simp add: view_entry_def bytes_of_append)
  qed
qed

lemma append_nil_keeps:
  assumes "heap_ok (c, h)"
  shows "fmmap (view_entry (snd (append_nil xs h))) (data c) = fmmap (view_entry h) (data c)"
    and "bytes_of (snd (append_nil xs h)) (fst (append_nil xs h)) = xs"
    and "slice_ok (snd (append_nil xs h)) (fst (append_nil xs h))"
    and "heap_ok (c, snd (append_nil xs h))"
    and "slice_ok h s \<Longrightarrow> slice_ok (snd (append_nil xs h)) s"
    and "slice_ok h s \<Longrightarrow> bytes_of (snd (append_nil xs h)) s = bytes_of h s"
proof -
  obtain v h1 where ap: "append_nil xs h = (v, h1)"
    by (cases "append_nil xs h")
  from append_nil_view[OF ap] obtain hs where v: "bytes_of h1 v = xs" "slice_ok h1 v"
    and h1: "h1 = h @ hs"
    by blast
  show "fmmap (view_entry (snd (append_nil xs h))) (data c) = fmmap (view_entry h) (data c)"
    using ap h1 view_data_append[OF assms, of hs] by simp
  show "bytes_of (snd (append_nil xs h)) (fst (append_nil xs h)) = xs"
    using ap v by simp
  show "slice_ok (snd (append_nil xs h)) (fst (append_nil xs h))"
    using ap v by simp
  show "heap_ok (c, snd (append_nil xs h))"
    using ap h1 heap_ok_append[OF assms, of hs] by simp
  show "slice_ok (snd (append_nil xs h)) s" if "slice_ok h s"
    using ap h1 slice_ok_append[OF that, of hs] by simp
  show "bytes_of (snd (append_nil xs h)) s = bytes_of h s" if "slice_ok h s"
    using ap h1 bytes_of_append[OF that, of hs] by simp
qed

lemma Set_ref_refines:
  assumes "heap_ok (c, h)" and "slice_ok h val"
  shows "Set key (bytes_of h val) a (view (c, h))
           = (fst (Set_ref key val a (c, h)), view (snd (Set_ref key val a (c, h))))
       \<and> heap_ok (snd (Set_ref key val a (c, h)))"
proof -
  obtain v h1 where ap: "append_nil (bytes_of h val) h = (v, h1)"
    by (cases "append_nil (bytes_of h val) h")
  note keeps = append_nil_keeps[OF assms(1), where xs = "bytes_of h val"]
  from keeps ap have v: "bytes_of h1 v = bytes_of h val" "slice_ok h1 v"
    and dat: "fmmap (view_entry h1) (data c) = fmmap (view_entry h) (data c)"
    and ok1: "heap_ok (c, h1)"
    by simp_all
  from keeps(5,6)[OF assms(2)] ap
  have val1: "slice_ok h1 val" "bytes_of h1 val = bytes_of h val"
    by simp_all
  have "Set key (bytes_of h val) a (view (c, h))
           = (fst (Set_ref key val a (c, h)), view (snd (Set_ref key val a (c, h))))"
    using ap v val1 dat
    by (auto simp: Set_def Set_ref_def view_def Let_def time_Now_def view_entry_def view_of_update
             split: option.splits prod.splits)
  moreover have "heap_ok (snd (Set_ref key val a (c, h)))"
    using ap v val1 ok1
    by (auto simp: Set_ref_def Let_def time_Now_def heap_ok_iff
             split: option.splits prod.splits if_splits)
  ultimately show ?thesis by simp
qed

lemma Get_ref_refines:
  assumes "heap_ok (c, h)"
  shows "Get key (view (c, h))
           = ((bytes_of (snd (snd (Get_ref key (c, h)))) (fst (fst (Get_ref key (c, h)))),
               snd (fst (Get_ref key (c, h)))),
              view (snd (Get_ref key (c, h))))
       \<and> heap_ok (snd (Get_ref key (c, h)))"
proof (cases "fmlookup (data c) (makeKey key)")
  case (Some e)
  then have "fmlookup (data (view (c, h))) (makeKey key) = Some (view_entry h e)"
    by (simp add: view_def)
  from Get_resident[OF this] Get_ref_resident[OF Some, of h]
    append_nil_keeps(1,2,4)[OF assms, where xs = "bytes_of h (value e)"]
  show ?thesis
    by (simp add: view_def view_entry_def heap_ok_iff)
next
  case None
  obtain v err d where g: "db_Get key (db c) = ((v, err), d)"
    by (metis prod.exhaust)
  from None have n: "fmlookup (data (view (c, h))) (makeKey key) = None"
    by (simp add: view_def)
  from g have g': "db_Get key (db (view (c, h))) = ((v, err), d)"
    by (simp add: view_def)
  note eqs = Get_not_resident[OF n g'] Get_ref_not_resident[OF None g, of h]
  show ?thesis
  proof (cases "err = None")
    case True
    with eqs append_nil_keeps(1,2,4)[OF assms, where xs = v] show ?thesis
      by (simp add: view_def heap_ok_iff)
  next
    case False
    with eqs assms show ?thesis
      by (simp add: view_def heap_ok_iff)
  qed
qed

subsection \<open>The two loops of Prefetch\<close>

lemma set_first_occurrences: "set (first_occurrences xs) = set xs"
  by (induction xs rule: first_occurrences.induct) auto

lemma distinct_first_occurrences: "distinct (first_occurrences xs)"
  by (induction xs rule: first_occurrences.induct) (auto simp: set_first_occurrences)

lemma dedup_loop_eq:
  "dedup_loop keys seen acc =
     acc @ first_occurrences (filter (\<lambda>k. k \<notin> seen) (map makeKey keys))"
proof (induction keys arbitrary: seen acc)
  case Nil
  then show ?case by simp
next
  case (Cons kb keys)
  have "filter (\<lambda>y. y \<noteq> makeKey kb) (filter (\<lambda>k. k \<notin> seen) xs) =
        filter (\<lambda>k. k \<notin> insert (makeKey kb) seen) xs" for xs :: "string list"
    by (induction xs) auto
  with Cons show ?case by (simp add: Let_def)
qed

lemma prefetch_loop_keeps:
  "fmlookup (data c) k = Some e \<Longrightarrow> fmlookup (data (snd (prefetch_loop ks n c))) k = Some e"
proof (induction ks arbitrary: n c)
  case Nil
  then show ?case by simp
next
  case (Cons k' ks)
  have step: "fmlookup (data c') k = Some e \<Longrightarrow>
              fmlookup (data (snd (prefetch_loop ks n' c'))) k = Some e" for n' c'
    by (rule Cons.IH)
  from Cons.prems show ?case
    by (auto simp: Let_def time_Now_def split: option.splits prod.splits intro!: step)
qed

subsection \<open>Entries of other keys\<close>

lemma Set_other_key:
  "makeKey key \<noteq> k \<Longrightarrow> fmlookup (data (snd (Set key val a c))) k = fmlookup (data c) k"
  by (auto simp: Set_def Let_def time_Now_def split: option.splits prod.splits)

lemma Evict_other_key:
  "makeKey key \<noteq> k \<Longrightarrow> fmlookup (data (snd (Evict key c))) k = fmlookup (data c) k"
  by (auto simp: Evict_def Let_def split: option.splits prod.splits)

lemma apply_op_first_inserted:
  assumes "fmlookup (data c) k = Some e" and "fmlookup (data (apply_op x c)) k = Some e'"
  shows "first_inserted e' = first_inserted e"
proof (cases x)
  case (OpGet key)
  with assms show ?thesis by (simp add: Get_frame)
next
  case (OpSet key val a)
  show ?thesis
  proof (cases "makeKey key = k")
    case True
    with assms(1) have "fmlookup (data c) (makeKey key) = Some e" by simp
    from Set_resident[OF this, of val a] assms(2) OpSet True show ?thesis by auto
  next
    case False
    from Set_other_key[OF this] assms OpSet show ?thesis by simp
  qed
next
  case (OpEvict key)
  show ?thesis
  proof (cases "makeKey key = k")
    case True
    with Evict_removes[of key c] assms(2) OpEvict show ?thesis by simp
  next
    case False
    from Evict_other_key[OF this] assms OpEvict show ?thesis by simp
  qed
next
  case (OpPrefetch keys)
  from prefetch_loop_keeps[OF assms(1)] assms(2) OpPrefetch show ?thesis
    by (simp add: Prefetch_def)
next
  case OpRemainingCapacity
  with assms show ?thesis by simp
next
  case OpClose
  with assms show ?thesis by (simp add: Close_frame)
qed

section \<open>The claims\<close>

text \<open>
  Claim C1. A cache is created with a positive capacity \<open>cap\<close>, and any finite sequence
  of calls is made on it (\<^verbatim>\<open>Get\<close>, \<^verbatim>\<open>Set\<close>, \<^verbatim>\<open>Evict\<close>, \<^verbatim>\<open>Prefetch\<close>; reading the
  remaining capacity and closing are allowed as well). Then the table holds at most
  \<open>cap\<close> entries. Moreover, in such a cache, a key that is in the table after a
  \<^verbatim>\<open>Set\<close> or a \<^verbatim>\<open>Prefetch\<close> and was not there before has been inserted into a table
  of strictly fewer than \<open>cap\<close> entries, and the table after the \<^verbatim>\<open>Prefetch\<close> is again
  within the capacity.
\<close>

theorem capacity_invariant:
  assumes "0 < cap" and "c = run ops (CreateCache d cap clk)"
  shows "len (data c) \<le> cap
       \<and> (k' |\<notin>| fmdom (data c) \<and> k' |\<in>| fmdom (data (snd (Set key val a c)))
            \<longrightarrow> len (data c) < cap)
       \<and> (k' |\<notin>| fmdom (data c) \<and> k' |\<in>| fmdom (data (snd (Prefetch keys c)))
            \<longrightarrow> len (data c) < cap)
       \<and> len (data (snd (Prefetch keys c))) \<le> cap"
proof -
  have "within_capacity (CreateCache d cap clk :: bytes Cache)"
    using assms(1) by (simp add: within_capacity_def CreateCache_def)
  then have w: "within_capacity c"
    unfolding assms(2) by (rule run_within)
  have cap: "capacity c = cap"
    by (simp add: assms(2) run_capacity CreateCache_def)
  from w cap have "len (data c) \<le> cap"
    by (simp add: within_capacity_def)
  moreover have "len (data c) < cap"
    if "k' |\<notin>| fmdom (data c) \<and> k' |\<in>| fmdom (data (snd (Set key val a c)))"
    using Set_new_key[of k' c key val a] that cap by simp
  moreover have "len (data c) < cap"
    if "k' |\<notin>| fmdom (data c) \<and> k' |\<in>| fmdom (data (snd (Prefetch keys c)))"
    using prefetch_loop_new_key[OF w, of k' "dedup_loop keys {} []" 0] that cap
    by (simp add: Prefetch_def)
  moreover have "len (data (snd (Prefetch keys c))) \<le> cap"
    using prefetch_loop_within[OF w, of "dedup_loop keys {} []" 0] cap
    by (simp add: within_capacity_def Prefetch_def prefetch_loop_frame)
  ultimately show ?thesis by blast
qed

text \<open>
  The witness: capacity 2; after \<open>''A''\<close> and \<open>''B''\<close> have been admitted and \<open>''D''\<close>
  has been turned away the table holds two entries; after \<open>''A''\<close> alone, a \<^verbatim>\<open>Set\<close> of
  \<open>''B''\<close> and a \<^verbatim>\<open>Prefetch\<close> of \<open>''C''\<close> each insert a new key.
\<close>

theorem capacity_invariant_witness:
  "(0::int) < 2
 \<and> len (data (run [OpSet ''A'' ''1'' True, OpSet ''B'' ''2'' True, OpSet ''D'' ''4'' True]
                (CreateCache demo_db 2 demo_clock))) \<le> 2
 \<and> ''B'' |\<notin>| fmdom (data (run [OpSet ''A'' ''1'' True] (CreateCache demo_db 2 demo_clock)))
 \<and> ''B'' |\<in>| fmdom (data (snd (Set ''B'' ''2'' True
                (run [OpSet ''A'' ''1'' True] (CreateCache demo_db 2 demo_clock)))))
 \<and> ''C'' |\<notin>| fmdom (data (run [OpSet ''A'' ''1'' True] (CreateCache demo_db 2 demo_clock)))
 \<and> ''C'' |\<in>| fmdom (data (snd (Prefetch [''C'']
                (run [OpSet ''A'' ''1'' True] (CreateCache demo_db 2 demo_clock)))))
 \<and> len (data (run [OpSet ''A'' ''1'' True] (CreateCache demo_db 2 demo_clock))) < 2
 \<and> len (data (snd (Prefetch [''C'']
                (run [OpSet ''A'' ''1'' True] (CreateCache demo_db 2 demo_clock))))) \<le> 2"
  using capacity_invariant [of 2 _ "[OpSet ''A'' ''1'' True, OpSet ''B'' ''2'' True,
                                     OpSet ''D'' ''4'' True]" demo_db demo_clock, OF _ refl]
    capacity_invariant [of 2 _ "[OpSet ''A'' ''1'' True]" demo_db demo_clock "''B''" "''B''"
                           "''2''" True "[''C'']", OF _ refl]
    capacity_invariant [of 2 _ "[OpSet ''A'' ''1'' True]" demo_db demo_clock "''C''" "''B''"
                           "''2''" True "[''C'']", OF _ refl]
  by (simp add: demo_defs op_defs)

text \<open>
  Claim C2. \<^verbatim>\<open>Set(K, V, true)\<close> is admitted to the table; the store is open and its next
  two calls do not fail. Then \<^verbatim>\<open>Evict(K)\<close> succeeds, \<open>K\<close> is no longer in the table,
  the store holds \<open>V\<close> under \<open>K\<close>, and \<^verbatim>\<open>Get(K)\<close> returns \<open>V\<close>, found, and no error.
\<close>

theorem evict_round_trip:
  assumes "fst (Set K V True c) = (True, None)"
    and "store_ready 2 (db c)"
  shows "fst (Evict K (snd (Set K V True c))) = (True, None)
       \<and> fmlookup (data (snd (Evict K (snd (Set K V True c))))) (makeKey K) = None
       \<and> kv (db (snd (Evict K (snd (Set K V True c))))) K = Some V
       \<and> fst (Get K (snd (Evict K (snd (Set K V True c))))) = (V, True, None)"
proof -
  define c1 where "c1 = snd (Set K V True c)"
  define c2 where "c2 = snd (Evict K c1)"
  have db1: "db c1 = db c"
    using assms(1) unfolding c1_def
    by (auto simp: Set_def Let_def time_Now_def split: option.splits prod.splits if_splits)
  have "\<exists>e. fmlookup (data c1) (makeKey K) = Some e \<and> value e = V"
    using assms(1) unfolding c1_def
    by (auto simp: Set_def Let_def time_Now_def split: option.splits prod.splits if_splits)
  then obtain e where e: "fmlookup (data c1) (makeKey K) = Some e" "value e = V"
    by blast
  have r1: "store_ready (Suc 1) (db c1)"
    using assms(2) db1 by (simp add: numeral_2_eq_2)
  define d where "d = (db c1)\<lparr>faults := tl (faults (db c1)), kv := (kv (db c1))(makeKey K \<mapsto> V),
                              durable := (kv (db c1))(makeKey K \<mapsto> V)\<rparr>"
  have w: "db_Set (makeKey K) (value e) Sync (db c1) = (None, d)"
    using db_Set_ready[OF r1, of "makeKey K" V Sync] e(2) by (simp add: d_def)
  have ev: "Evict K c1 = ((True, None),
      c1\<lparr>data := fmdrop (makeKey K) (data c1), db := d, stats := CacheEvict (stats c1)\<rparr>)"
    using Evict_resident[OF e(1) w] by simp
  then have c2: "fmlookup (data c2) (makeKey K) = None" "db c2 = d"
    by (simp_all add: c2_def)
  have kv2: "kv (db c2) K = Some V"
    using c2(2) by (simp add: d_def makeKey_def)
  have "store_ready (Suc 0) (db c2)"
    using store_ready_tl[OF r1] c2(2) by (simp add: d_def)
  from db_Get_ready[OF this, of K] kv2
  have "db_Get K (db c2) = ((V, None), (db c2)\<lparr>faults := tl (faults (db c2))\<rparr>)"
    by simp
  from Get_not_resident[OF c2(1) this]
  have "fst (Get K c2) = (V, True, None)" by simp
  with ev c2 kv2 show ?thesis by (simp add: c1_def c2_def)
qed

text \<open>The witness: \<open>''A''\<close> is admitted to the empty cache of capacity 2.\<close>

theorem evict_round_trip_witness:
  "fst (Set ''A'' ''1'' True demo_cache) = (True, None)
 \<and> store_ready 2 (db demo_cache)
 \<and> fst (Evict ''A'' (snd (Set ''A'' ''1'' True demo_cache))) = (True, None)
 \<and> fmlookup (data (snd (Evict ''A'' (snd (Set ''A'' ''1'' True demo_cache))))) (makeKey ''A'') = None
 \<and> kv (db (snd (Evict ''A'' (snd (Set ''A'' ''1'' True demo_cache))))) ''A'' = Some ''1''
 \<and> fst (Get ''A'' (snd (Evict ''A'' (snd (Set ''A'' ''1'' True demo_cache))))) = (''1'', True, None)"
  using evict_round_trip [of "''A''" "''1''" demo_cache]
  by (simp add: demo_defs op_defs)

text \<open>
  Claim C3. \<^verbatim>\<open>Evict(key)\<close> of a key that is not in the table returns (false, nil) and
  changes nothing. For a key in the table with entry \<open>e\<close> it removes the entry and writes
  the value of \<open>e\<close> to the store with \<open>Sync\<close>. If the write succeeds it records an
  eviction, that is, the counter \<open>evictions\<close> goes up by one and the five other
  counters stay as they are, and it returns (true, nil), and the value is durable; if
  the write fails with \<open>err\<close> it returns (false, err), leaves every counter as it is,
  and the entry stays removed. In every case the key is not in the table afterwards,
  and a second \<^verbatim>\<open>Evict\<close> right after a successful one returns (false, nil) and
  changes nothing.
\<close>

theorem Evict_contract:
  "(fmlookup (data c) (makeKey key) = None \<longrightarrow> Evict key c = ((False, None), c))
 \<and> (fmlookup (data c) (makeKey key) = Some e
      \<and> db_Set (makeKey key) (value e) Sync (db c) = (None, d)
      \<longrightarrow> Evict key c =
            ((True, None),
             c\<lparr>data := fmdrop (makeKey key) (data c), db := d, stats := CacheEvict (stats c)\<rparr>)
          \<and> kv d (makeKey key) = Some (value e) \<and> durable d (makeKey key) = Some (value e)
          \<and> stats (snd (Evict key c)) = (stats c)\<lparr>evictions := evictions (stats c) + 1\<rparr>
          \<and> evictions (stats (snd (Evict key c))) = evictions (stats c) + 1
          \<and> cache_hits (stats (snd (Evict key c))) = cache_hits (stats c)
          \<and> cache_misses (stats (snd (Evict key c))) = cache_misses (stats c)
          \<and> cache_accesses (stats (snd (Evict key c))) = cache_accesses (stats c)
          \<and> prefetches (stats (snd (Evict key c))) = prefetches (stats c)
          \<and> additions (stats (snd (Evict key c))) = additions (stats c))
 \<and> (fmlookup (data c) (makeKey key) = Some e
      \<and> db_Set (makeKey key) (value e) Sync (db c) = (Some err, d)
      \<longrightarrow> Evict key c = ((False, Some err), c\<lparr>data := fmdrop (makeKey key) (data c), db := d\<rparr>)
          \<and> stats (snd (Evict key c)) = stats c
          \<and> evictions (stats (snd (Evict key c))) = evictions (stats c))
 \<and> fmlookup (data (snd (Evict key c))) (makeKey key) = None
 \<and> (fst (Evict key c) = (True, None)
      \<longrightarrow> Evict key (snd (Evict key c)) = ((False, None), snd (Evict key c)))"
  using db_Set_success[of "makeKey key" "value e" Sync "db c" d]
  by (auto simp: Evict_resident Evict_not_resident Evict_removes CacheEvict_def)

text \<open>
  The witness: \<open>''A''\<close> is evicted from the empty cache, from a cache that holds it over a
  store that works, and from one over a store whose next call fails.
\<close>

theorem Evict_contract_witness:
  "fmlookup (data demo_cache) (makeKey ''A'') = None
 \<and> Evict ''A'' demo_cache = ((False, None), demo_cache)
 \<and> fmlookup (data demo_cache_A) (makeKey ''A'') = Some entry_A
 \<and> db_Set (makeKey ''A'') (value entry_A) Sync (db demo_cache_A) = (None, demo_db_A)
 \<and> Evict ''A'' demo_cache_A =
       ((True, None),
        demo_cache_A\<lparr>data := fmdrop (makeKey ''A'') (data demo_cache_A), db := demo_db_A,
                      stats := CacheEvict (stats demo_cache_A)\<rparr>)
 \<and> durable demo_db_A (makeKey ''A'') = Some (value entry_A)
 \<and> stats demo_cache_A
     = \<lparr>cache_hits = 0, cache_misses = 1, cache_accesses = 1, evictions = 0, prefetches = 0,
        additions = 0\<rparr>
 \<and> stats (snd (Evict ''A'' demo_cache_A))
     = \<lparr>cache_hits = 0, cache_misses = 1, cache_accesses = 1, evictions = 1, prefetches = 0,
        additions = 0\<rparr>
 \<and> evictions (stats (snd (Evict ''A'' demo_cache_A))) = evictions (stats demo_cache_A) + 1
 \<and> fmlookup (data faulty_cache_A) (makeKey ''A'') = Some entry_A
 \<and> db_Set (makeKey ''A'') (value entry_A) Sync (db faulty_cache_A) = (Some (ErrIO ''disk''), demo_db)
 \<and> Evict ''A'' faulty_cache_A =
       ((False, Some (ErrIO ''disk'')),
        faulty_cache_A\<lparr>data := fmdrop (makeKey ''A'') (data faulty_cache_A), db := demo_db\<rparr>)
 \<and> stats (snd (Evict ''A'' faulty_cache_A)) = stats faulty_cache_A
 \<and> evictions (stats (snd (Evict ''A'' faulty_cache_A))) = 0
 \<and> fmlookup (data (snd (Evict ''A'' faulty_cache_A))) (makeKey ''A'') = None
 \<and> fst (Evict ''A'' demo_cache_A) = (True, None)
 \<and> Evict ''A'' (snd (Evict ''A'' demo_cache_A)) = ((False, None), snd (Evict ''A'' demo_cache_A))"
  using Evict_contract [of demo_cache "''A''"]
    Evict_contract [of demo_cache_A "''A''" entry_A demo_db_A]
    Evict_contract [of faulty_cache_A "''A''" entry_A demo_db "ErrIO ''disk''"]
  by (simp add: demo_defs op_defs)

text \<open>
  Claim C4. Whenever \<^verbatim>\<open>Set\<close> returns without an error, the value is in the table under
  the key or durable in the store under the key. When the key is not in the table and
  either \<open>addToCache\<close> is false or the table is full, \<^verbatim>\<open>Set\<close> writes the pair to the
  store with \<open>Sync\<close>, leaves the table as it is and returns false together with the
  outcome of the write. After a successful write the store holds the value, durably,
  and, if its next call does not fail, \<^verbatim>\<open>Get\<close> of the key returns the value, found, and
  no error.
\<close>

theorem Set_never_drops_a_write:
  "(snd (fst (Set key val a c)) = None
      \<longrightarrow> map_option value (fmlookup (data (snd (Set key val a c))) (makeKey key)) = Some val
          \<or> durable (db (snd (Set key val a c))) key = Some val)
 \<and> (fmlookup (data c) (makeKey key) = None \<and> (\<not> a \<or> capacity c \<le> len (data c))
      \<and> db_Set key val Sync (db c) = (err, d)
      \<longrightarrow> Set key val a c = ((False, err), c\<lparr>stats := CacheMiss (stats c), db := d\<rparr>)
        \<and> data (snd (Set key val a c)) = data c
        \<and> (err = None \<longrightarrow> kv d key = Some val \<and> durable d key = Some val)
        \<and> (err = None \<and> store_ready 1 d
             \<longrightarrow> fst (Get key (snd (Set key val a c))) = (val, True, None)))"
proof (intro conjI impI)
  assume "snd (fst (Set key val a c)) = None"
  then show "map_option value (fmlookup (data (snd (Set key val a c))) (makeKey key)) = Some val
          \<or> durable (db (snd (Set key val a c))) key = Some val"
    by (auto simp: Set_def Let_def time_Now_def split: option.splits prod.splits if_splits
             dest: db_Set_success)
next
  assume h: "fmlookup (data c) (makeKey key) = None \<and> (\<not> a \<or> capacity c \<le> len (data c))
      \<and> db_Set key val Sync (db c) = (err, d)"
  then have eq: "Set key val a c = ((False, err), c\<lparr>stats := CacheMiss (stats c), db := d\<rparr>)"
    by (elim conjE) (rule Set_store)
  then show "Set key val a c = ((False, err), c\<lparr>stats := CacheMiss (stats c), db := d\<rparr>)" .
  from eq show "data (snd (Set key val a c)) = data c" by simp
  {
    assume "err = None"
    with h have "db_Set key val Sync (db c) = (None, d)" by simp
    from db_Set_success[OF this] show "kv d key = Some val" "durable d key = Some val"
      by simp_all
  }
  {
    assume ok: "err = None \<and> store_ready 1 d"
    with h have "db_Set key val Sync (db c) = (None, d)" by simp
    from db_Set_success[OF this] have kvd: "kv d key = Some val" by simp
    from ok have "store_ready (Suc 0) d" by simp
    from db_Get_ready[OF this, of key] kvd
    have g: "db_Get key (db (c\<lparr>stats := CacheMiss (stats c), db := d\<rparr>))
             = ((val, None), d\<lparr>faults := tl (faults d)\<rparr>)"
      by simp
    from h have "fmlookup (data (c\<lparr>stats := CacheMiss (stats c), db := d\<rparr>)) (makeKey key) = None"
      by simp
    from Get_not_resident[OF this g] eq
    show "fst (Get key (snd (Set key val a c))) = (val, True, None)" by simp
  }
qed

text \<open>
  The witness is the scenario of the specification: capacity 2, \<open>''A''\<close> and \<open>''B''\<close> are
  admitted (the remaining capacity goes 2, 1, 0), a third key is turned away and lands
  in the store, and \<^verbatim>\<open>Get\<close> serves it from there.
\<close>

theorem Set_never_drops_a_write_witness:
  "RemainingCapacity demo_cache = 2
 \<and> RemainingCapacity (apply_op (OpSet ''A'' ''1'' True) demo_cache) = 1
 \<and> RemainingCapacity full_cache = 0
 \<and> snd (fst (Set ''D'' ''4'' True full_cache)) = None
 \<and> durable (db (snd (Set ''D'' ''4'' True full_cache))) ''D'' = Some ''4''
 \<and> fmlookup (data full_cache) (makeKey ''D'') = None
 \<and> capacity full_cache \<le> len (data full_cache)
 \<and> db_Set ''D'' ''4'' Sync (db full_cache)
     = (None, demo_db_D)
 \<and> store_ready 1 (demo_db_D)
 \<and> fst (Set ''D'' ''4'' True full_cache) = (False, None)
 \<and> data (snd (Set ''D'' ''4'' True full_cache)) = data full_cache
 \<and> fst (Get ''D'' (snd (Set ''D'' ''4'' True full_cache))) = (''4'', True, None)"
  using Set_never_drops_a_write [of "''D''" "''4''" True full_cache None
          demo_db_D]
  by (simp add: demo_defs op_defs)

text \<open>
  Claim C5. The claim is that the table never shares memory with a caller: \<^verbatim>\<open>Set\<close>
  stores a copy on both of its paths and \<^verbatim>\<open>Get\<close> returns a copy. The source makes the
  copy \<^verbatim>\<open>v\<close> first and stores it when it overwrites an entry, but a new entry gets
  \<^verbatim>\<open>value: value\<close>, the caller's slice, and only \<^verbatim>\<open>size: len(v)\<close> from the copy.
  Evaluated: a caller sets \<open>''K''\<close> to its buffer \<open>''abc''\<close> in an empty cache; the new
  entry holds the caller's slice, so that when the caller then writes \<open>X\<close> to the
  first byte of the buffer, the table holds \<open>''Xbc''\<close> and \<^verbatim>\<open>Get\<close> returns \<open>''Xbc''\<close>.
  After a second \<^verbatim>\<open>Set\<close> of the same key, which overwrites, the entry holds a fresh
  slice, and the same write leaves the table alone; so does a write to what \<^verbatim>\<open>Get\<close>
  returned.
\<close>

theorem Set_insert_keeps_callers_slice:
  "fst (Set_ref ''K'' caller_buf True (demo_cache_ref, caller_heap)) = (True, None)
 \<and> map_option value (fmlookup (data (fst inserted)) ''K'') = Some caller_buf
 \<and> contents (snd inserted) (fst inserted) ''K'' = Some ''abc''
 \<and> contents (write_byte caller_buf 0 CHR ''X'' (snd inserted)) (fst inserted) ''K'' = Some ''Xbc''
 \<and> fst (fst (Get_ref ''K'' (fst inserted, write_byte caller_buf 0 CHR ''X'' (snd inserted))))
     = Some 2
 \<and> bytes_of
      (snd (snd (Get_ref ''K'' (fst inserted, write_byte caller_buf 0 CHR ''X'' (snd inserted)))))
      (Some 2) = ''Xbc''
 \<and> map_option value (fmlookup (data (fst overwritten)) ''K'') = Some (Some 2)
 \<and> contents (write_byte caller_buf 0 CHR ''X'' (snd overwritten)) (fst overwritten) ''K''
     = Some ''abc''
 \<and> fst (fst (Get_ref ''K'' overwritten)) = Some 3
 \<and> contents (write_byte (Some 3) 0 CHR ''Y'' (snd (snd (Get_ref ''K'' overwritten))))
      (fst (snd (Get_ref ''K'' overwritten))) ''K'' = Some ''abc''"
  by (simp add: ref_defs demo_defs op_defs)

text \<open>
  Claim C6. \<^verbatim>\<open>Set\<close> of a key that is in the table, whatever \<open>addToCache\<close> is, returns
  (true, nil); the entry gets the new value and its length and the next reading of the
  clock as \<open>last_updated\<close>, and keeps its \<open>first_inserted\<close>; a hit is recorded, that
  is, the counters \<open>cache_hits\<close> and \<open>cache_accesses\<close> each go up by one and the four
  other counters stay as they are; the table holds the same keys, the store is not
  touched and no eviction is counted.
  More generally no call changes \<open>first_inserted\<close>: an entry that is in the table
  before and after a call of any of the operations has the same \<open>first_inserted\<close>.
\<close>

theorem Set_overwrites_in_place:
  "(fmlookup (data c) (makeKey key) = Some e
      \<longrightarrow> Set key val a c =
           ((True, None),
            c\<lparr>stats := CacheHit (stats c), clock := stl (clock c),
              data := fmupd (makeKey key)
                       (e\<lparr>last_updated := shd (clock c), size' := int (length val), value := val\<rparr>)
                       (data c)\<rparr>)
       \<and> fmlookup (data (snd (Set key val a c))) (makeKey key)
           = Some \<lparr>value = val, size' = int (length val), first_inserted = first_inserted e,
                   last_updated = shd (clock c)\<rparr>
       \<and> fmdom (data (snd (Set key val a c))) = fmdom (data c)
       \<and> db (snd (Set key val a c)) = db c
       \<and> stats (snd (Set key val a c)) = CacheHit (stats c)
       \<and> evictions (stats (snd (Set key val a c))) = evictions (stats c)
       \<and> stats (snd (Set key val a c))
           = (stats c)\<lparr>cache_accesses := cache_accesses (stats c) + 1,
                       cache_hits := cache_hits (stats c) + 1\<rparr>
       \<and> cache_hits (stats (snd (Set key val a c))) = cache_hits (stats c) + 1
       \<and> cache_accesses (stats (snd (Set key val a c))) = cache_accesses (stats c) + 1
       \<and> cache_misses (stats (snd (Set key val a c))) = cache_misses (stats c)
       \<and> prefetches (stats (snd (Set key val a c))) = prefetches (stats c)
       \<and> additions (stats (snd (Set key val a c))) = additions (stats c))
 \<and> (fmlookup (data c) k = Some e \<and> fmlookup (data (apply_op x c)) k = Some e'
      \<longrightarrow> first_inserted e' = first_inserted e)"
proof (intro conjI impI)
  assume r: "fmlookup (data c) (makeKey key) = Some e"
  have dom: "finsert (makeKey key) (fmdom (data c)) = fmdom (data c)"
    using fmdomI[OF r] by auto
  note eq = Set_resident[OF r, of val a]
  from eq show "Set key val a c =
           ((True, None),
            c\<lparr>stats := CacheHit (stats c), clock := stl (clock c),
              data := fmupd (makeKey key)
                       (e\<lparr>last_updated := shd (clock c), size' := int (length val), value := val\<rparr>)
                       (data c)\<rparr>)" .
  from eq show "fmlookup (data (snd (Set key val a c))) (makeKey key)
           = Some \<lparr>value = val, size' = int (length val), first_inserted = first_inserted e,
                   last_updated = shd (clock c)\<rparr>"
    by simp
  from eq dom show "fmdom (data (snd (Set key val a c))) = fmdom (data c)" by simp
  from eq show "db (snd (Set key val a c)) = db c" by simp
  from eq show "stats (snd (Set key val a c)) = CacheHit (stats c)" by simp
  from eq show "evictions (stats (snd (Set key val a c))) = evictions (stats c)"
    by (simp add: CacheHit_def)
  from eq show "stats (snd (Set key val a c))
           = (stats c)\<lparr>cache_accesses := cache_accesses (stats c) + 1,
                       cache_hits := cache_hits (stats c) + 1\<rparr>"
    by (simp add: CacheHit_def)
  from eq show "cache_hits (stats (snd (Set key val a c))) = cache_hits (stats c) + 1"
    by (simp add: CacheHit_def)
  from eq show "cache_accesses (stats (snd (Set key val a c))) = cache_accesses (stats c) + 1"
    by (simp add: CacheHit_def)
  from eq show "cache_misses (stats (snd (Set key val a c))) = cache_misses (stats c)"
    by (simp add: CacheHit_def)
  from eq show "prefetches (stats (snd (Set key val a c))) = prefetches (stats c)"
    by (simp add: CacheHit_def)
  from eq show "additions (stats (snd (Set key val a c))) = additions (stats c)"
    by (simp add: CacheHit_def)
next
  assume "fmlookup (data c) k = Some e \<and> fmlookup (data (apply_op x c)) k = Some e'"
  then show "first_inserted e' = first_inserted e"
    by (elim conjE) (rule apply_op_first_inserted)
qed

text \<open>The witness: \<open>''A''\<close>, admitted at times 0 and 10, is overwritten with \<open>addToCache\<close> false.\<close>

theorem Set_overwrites_in_place_witness:
  "fmlookup (data demo_cache_A) (makeKey ''A'') = Some entry_A
 \<and> fst (Set ''A'' ''xyz'' False demo_cache_A) = (True, None)
 \<and> fmlookup (data (snd (Set ''A'' ''xyz'' False demo_cache_A))) (makeKey ''A'')
     = Some \<lparr>value = ''xyz'', size' = 3, first_inserted = 0, last_updated = 20\<rparr>
 \<and> fmdom (data (snd (Set ''A'' ''xyz'' False demo_cache_A))) = fmdom (data demo_cache_A)
 \<and> db (snd (Set ''A'' ''xyz'' False demo_cache_A)) = db demo_cache_A
 \<and> stats (snd (Set ''A'' ''xyz'' False demo_cache_A)) = CacheHit (stats demo_cache_A)
 \<and> stats demo_cache_A
     = \<lparr>cache_hits = 0, cache_misses = 1, cache_accesses = 1, evictions = 0, prefetches = 0,
        additions = 0\<rparr>
 \<and> stats (snd (Set ''A'' ''xyz'' False demo_cache_A))
     = \<lparr>cache_hits = 1, cache_misses = 1, cache_accesses = 2, evictions = 0, prefetches = 0,
        additions = 0\<rparr>
 \<and> cache_hits (stats (snd (Set ''A'' ''xyz'' False demo_cache_A)))
     = cache_hits (stats demo_cache_A) + 1
 \<and> cache_accesses (stats (snd (Set ''A'' ''xyz'' False demo_cache_A)))
     = cache_accesses (stats demo_cache_A) + 1
 \<and> fmlookup (data (apply_op (OpSet ''A'' ''xyz'' True) demo_cache_A)) ''A''
     = Some \<lparr>value = ''xyz'', size' = 3, first_inserted = 0, last_updated = 20\<rparr>
 \<and> first_inserted \<lparr>value = ''xyz'', size' = 3, first_inserted = 0, last_updated = 20\<rparr>
     = first_inserted entry_A"
  using Set_overwrites_in_place [of demo_cache_A "''A''" entry_A "''xyz''" False "''A''"
          "OpSet ''A'' ''xyz'' True"
          "\<lparr>value = ''xyz'', size' = 3, first_inserted = 0, last_updated = 20\<rparr>"]
  by (simp add: demo_defs op_defs)

text \<open>
  Claim C7. \<^verbatim>\<open>Prefetch\<close> removes nothing: a key that is in the table before the call
  is there afterwards, with the same entry. When no capacity remains the table is left
  exactly as it is; a key that is not in the table and that the store does hold is then
  passed over: the loop goes on with the same count, and a \<^verbatim>\<open>Prefetch\<close> of that one
  key returns the count 0 and no error.
\<close>

theorem Prefetch_never_evicts:
  "(fmlookup (data c) k = Some e \<longrightarrow> fmlookup (data (snd (Prefetch keys c))) k = Some e)
 \<and> (RemainingCapacity c = 0 \<longrightarrow> data (snd (Prefetch keys c)) = data c)
 \<and> (RemainingCapacity c = 0 \<and> fmlookup (data c) k = None \<and> db_Get k (db c) = ((v, None), d)
      \<longrightarrow> prefetch_loop (k # ks) n c = prefetch_loop ks n (c\<lparr>db := d\<rparr>)
        \<and> Prefetch [k] c = ((0, None), c\<lparr>db := d\<rparr>))"
proof (intro conjI impI)
  assume "fmlookup (data c) k = Some e"
  then show "fmlookup (data (snd (Prefetch keys c))) k = Some e"
    unfolding Prefetch_def by (rule prefetch_loop_keeps)
next
  assume "RemainingCapacity c = 0"
  then show "data (snd (Prefetch keys c)) = data c"
    unfolding Prefetch_def by (rule prefetch_loop_full)
next
  assume h: "RemainingCapacity c = 0 \<and> fmlookup (data c) k = None \<and> db_Get k (db c) = ((v, None), d)"
  then show "prefetch_loop (k # ks) n c = prefetch_loop ks n (c\<lparr>db := d\<rparr>)"
    by (elim conjE) (rule loop_full)
  from h have "prefetch_loop [k] 0 c = prefetch_loop [] 0 (c\<lparr>db := d\<rparr>)"
    by (elim conjE) (rule loop_full)
  then show "Prefetch [k] c = ((0, None), c\<lparr>db := d\<rparr>)"
    by (simp add: Prefetch_def makeKey_def)
qed

text \<open>
  The witness: the cache of capacity 2 holds \<open>''A''\<close> and \<open>''B''\<close>; the store holds
  \<open>''C''\<close>. Prefetching \<open>''C''\<close>, \<open>''A''\<close> and an unknown key counts \<open>''A''\<close> only.
\<close>

theorem Prefetch_never_evicts_witness:
  "fmlookup (data full_cache) ''A'' = Some entry_A
 \<and> fmlookup (data (snd (Prefetch [''C'', ''A'', ''Z''] full_cache))) ''A'' = Some entry_A
 \<and> RemainingCapacity full_cache = 0
 \<and> data (snd (Prefetch [''C'', ''A'', ''Z''] full_cache)) = data full_cache
 \<and> fmlookup (data full_cache) ''C'' = None
 \<and> db_Get ''C'' (db full_cache) = ((''3'', None), demo_db)
 \<and> prefetch_loop [''C'', ''A''] 0 full_cache = prefetch_loop [''A''] 0 (full_cache\<lparr>db := demo_db\<rparr>)
 \<and> Prefetch [''C''] full_cache = ((0, None), full_cache\<lparr>db := demo_db\<rparr>)
 \<and> fst (Prefetch [''C'', ''A'', ''Z''] full_cache) = (1, None)"
  using Prefetch_never_evicts [of full_cache "''A''" entry_A "[''C'', ''A'', ''Z'']"]
    Prefetch_never_evicts [of full_cache "''C''" _ _ "''3''" demo_db "[''A'']" 0]
  by (simp add: demo_defs op_defs)

text \<open>
  Claim C8. \<^verbatim>\<open>Prefetch\<close> runs its second loop, from the count 0, over the first
  occurrences of the keys, in the order of the input; they are distinct and they are
  all the keys. One round of that loop, at a key \<open>k\<close> and with the count \<open>n\<close>:
  \<^item> \<open>k\<close> is in the table: the loop goes on with \<open>n + 1\<close> and the same state, the store
    included;
  \<^item> \<open>k\<close> is not in the table and the store reports not-found: the loop goes on with \<open>n\<close>;
  \<^item> \<open>k\<close> is not in the table, the store returns \<open>v\<close>, and capacity remains: a new entry
    with \<open>v\<close> is inserted and the loop goes on with \<open>n + 1\<close>;
  \<^item> \<open>k\<close> is not in the table and the store fails with another error: the call returns
    at once with \<open>n\<close> and that error, whatever keys are left.
  With \<open>K1\<close> in the table, \<open>K2\<close> only in the store, free capacity and a store whose next
  call does not fail, \<^verbatim>\<open>Prefetch([K1, K1, K2])\<close> returns the count 2 and no error.
\<close>

theorem Prefetch_protocol:
  "Prefetch keys c = prefetch_loop (first_occurrences (map makeKey keys)) 0 c
 \<and> distinct (first_occurrences (map makeKey keys))
 \<and> set (first_occurrences (map makeKey keys)) = set (map makeKey keys)
 \<and> (fmlookup (data c) k = Some e \<longrightarrow> prefetch_loop (k # ks) n c = prefetch_loop ks (n + 1) c)
 \<and> (fmlookup (data c) k = None \<and> db_Get k (db c) = ((v, Some ErrNotFound), d)
      \<longrightarrow> prefetch_loop (k # ks) n c = prefetch_loop ks n (c\<lparr>db := d\<rparr>))
 \<and> (fmlookup (data c) k = None \<and> db_Get k (db c) = ((v, None), d) \<and> RemainingCapacity c \<noteq> 0
      \<longrightarrow> prefetch_loop (k # ks) n c =
            prefetch_loop ks (n + 1)
              (c\<lparr>db := d, clock := stl (stl (clock c)),
                 data := fmupd k \<lparr>value = v, size' = int (length v),
                                  first_inserted = shd (clock c),
                                  last_updated = shd (stl (clock c))\<rparr> (data c)\<rparr>))
 \<and> (fmlookup (data c) k = None \<and> db_Get k (db c) = ((v, Some err), d) \<and> err \<noteq> ErrNotFound
      \<longrightarrow> prefetch_loop (k # ks) n c = ((n, Some err), c\<lparr>db := d\<rparr>))
 \<and> (fmlookup (data c) K1 = Some e \<and> fmlookup (data c) K2 = None \<and> kv (db c) K2 = Some v
      \<and> store_ready 1 (db c) \<and> 0 < RemainingCapacity c
      \<longrightarrow> fst (Prefetch [K1, K1, K2] c) = (2, None)
        \<and> map_option value (fmlookup (data (snd (Prefetch [K1, K1, K2] c))) K2) = Some v)"
proof -
  have dd: "Prefetch keys c = prefetch_loop (first_occurrences (map makeKey keys)) 0 c"
    by (simp add: Prefetch_def dedup_loop_eq)
  have scen: "fst (Prefetch [K1, K1, K2] c) = (2, None)
        \<and> map_option value (fmlookup (data (snd (Prefetch [K1, K1, K2] c))) K2) = Some v"
    if h: "fmlookup (data c) K1 = Some e \<and> fmlookup (data c) K2 = None \<and> kv (db c) K2 = Some v
      \<and> store_ready 1 (db c) \<and> 0 < RemainingCapacity c"
  proof -
    from h have ne: "K1 \<noteq> K2" by auto
    from h have "store_ready (Suc 0) (db c)" by simp
    from db_Get_ready[OF this, of K2] h
    have g: "db_Get K2 (db c) = ((v, None), (db c)\<lparr>faults := tl (faults (db c))\<rparr>)"
      by simp
    from h have r: "RemainingCapacity c \<noteq> 0" by simp
    from h have k1: "fmlookup (data c) K1 = Some e" and k2: "fmlookup (data c) K2 = None"
      by simp_all
    have "Prefetch [K1, K1, K2] c = prefetch_loop [K1, K2] 0 c"
      using ne by (simp add: Prefetch_def makeKey_def Let_def del: prefetch_loop.simps)
    also have "\<dots> = prefetch_loop [K2] 1 c"
      using loop_resident[OF k1, of "[K2]" 0] by simp
    finally show ?thesis
      using loop_admit[OF k2 g r, of "[]" 1] by simp
  qed
  have res: "prefetch_loop (k # ks) n c = prefetch_loop ks (n + 1) c"
    if "fmlookup (data c) k = Some e"
    using that by (rule loop_resident)
  have nf: "prefetch_loop (k # ks) n c = prefetch_loop ks n (c\<lparr>db := d\<rparr>)"
    if "fmlookup (data c) k = None \<and> db_Get k (db c) = ((v, Some ErrNotFound), d)"
    using that by (elim conjE) (rule loop_not_found)
  have adm: "prefetch_loop (k # ks) n c =
            prefetch_loop ks (n + 1)
              (c\<lparr>db := d, clock := stl (stl (clock c)),
                 data := fmupd k \<lparr>value = v, size' = int (length v),
                                  first_inserted = shd (clock c),
                                  last_updated = shd (stl (clock c))\<rparr> (data c)\<rparr>)"
    if "fmlookup (data c) k = None \<and> db_Get k (db c) = ((v, None), d) \<and> RemainingCapacity c \<noteq> 0"
    using that by (elim conjE) (rule loop_admit)
  have er: "prefetch_loop (k # ks) n c = ((n, Some err), c\<lparr>db := d\<rparr>)"
    if "fmlookup (data c) k = None \<and> db_Get k (db c) = ((v, Some err), d) \<and> err \<noteq> ErrNotFound"
    using that by (elim conjE) (rule loop_error)
  show ?thesis
  proof (intro conjI)
    show "Prefetch keys c = prefetch_loop (first_occurrences (map makeKey keys)) 0 c"
      by (rule dd)
    show "distinct (first_occurrences (map makeKey keys))"
      by (rule distinct_first_occurrences)
    show "set (first_occurrences (map makeKey keys)) = set (map makeKey keys)"
      by (rule set_first_occurrences)
  qed (use res nf adm er scen in blast)+
qed

text \<open>
  The witness: the cache holds \<open>''A''\<close>, the store holds \<open>''C''\<close> and no \<open>''Z''\<close>; over
  the store whose next call fails, the failure ends the call with the count so far.
\<close>

theorem Prefetch_protocol_witness:
  "Prefetch [''A'', ''A'', ''C''] demo_cache_A = prefetch_loop [''A'', ''C''] 0 demo_cache_A
 \<and> fmlookup (data demo_cache_A) ''A'' = Some entry_A
 \<and> prefetch_loop [''A'', ''C''] 0 demo_cache_A = prefetch_loop [''C''] 1 demo_cache_A
 \<and> fmlookup (data demo_cache_A) ''Z'' = None
 \<and> db_Get ''Z'' (db demo_cache_A) = (([], Some ErrNotFound), demo_db)
 \<and> prefetch_loop [''Z'', ''A''] 0 demo_cache_A = prefetch_loop [''A''] 0 (demo_cache_A\<lparr>db := demo_db\<rparr>)
 \<and> fmlookup (data demo_cache_A) ''C'' = None
 \<and> db_Get ''C'' (db demo_cache_A) = ((''3'', None), demo_db)
 \<and> RemainingCapacity demo_cache_A \<noteq> 0
 \<and> prefetch_loop [''C'', ''A''] 0 demo_cache_A =
      prefetch_loop [''A''] 1
        (demo_cache_A\<lparr>db := demo_db, clock := stl (stl (clock demo_cache_A)),
           data := fmupd ''C'' \<lparr>value = ''3'', size' = 1, first_inserted = 20, last_updated = 30\<rparr>
                     (data demo_cache_A)\<rparr>)
 \<and> fmlookup (data faulty_cache_A) ''C'' = None
 \<and> db_Get ''C'' (db faulty_cache_A) = (([], Some (ErrIO ''disk'')), demo_db)
 \<and> ErrIO ''disk'' \<noteq> ErrNotFound
 \<and> prefetch_loop [''C'', ''A''] 5 faulty_cache_A = ((5, Some (ErrIO ''disk'')), faulty_cache_A\<lparr>db := demo_db\<rparr>)
 \<and> Prefetch [''A'', ''C'', ''A''] faulty_cache_A = ((1, Some (ErrIO ''disk'')), faulty_cache_A\<lparr>db := demo_db\<rparr>)
 \<and> kv (db demo_cache_A) ''C'' = Some ''3''
 \<and> store_ready 1 (db demo_cache_A)
 \<and> 0 < RemainingCapacity demo_cache_A
 \<and> fst (Prefetch [''A'', ''A'', ''C''] demo_cache_A) = (2, None)
 \<and> map_option value (fmlookup (data (snd (Prefetch [''A'', ''A'', ''C''] demo_cache_A))) ''C'') = Some ''3''"
  using Prefetch_protocol [of "[''A'', ''A'', ''C'']" demo_cache_A "''A''" entry_A "[''C'']" 0]
    Prefetch_protocol [of _ demo_cache_A "''Z''" _ "[''A'']" 0 "[]" demo_db]
    Prefetch_protocol [of _ demo_cache_A "''C''" entry_A "[''A'']" 0 "''3''" demo_db _ "''A''"
                         "''C''"]
    Prefetch_protocol [of _ faulty_cache_A "''C''" _ "[''A'']" 5 "[]" demo_db "ErrIO ''disk''"]
  by (simp add: demo_defs op_defs)

text \<open>
  Claim C9, as amended. \<^verbatim>\<open>Get\<close> of a key that is not in the table, when the store
  reports not-found, returns no value, found = false and no error, and records a miss.
  So for a key that is in neither the table nor the store, with the store open and its
  next call not failing: the result is (nil, false, nil); the table is unchanged; the
  counters of misses and of accesses each go up by one, and the four other counters
  stay as they are.
\<close>

theorem Get_absent_key:
  "(fmlookup (data c) (makeKey K) = None \<and> db_Get K (db c) = ((v, Some ErrNotFound), d)
      \<longrightarrow> Get K c = (([], False, None), c\<lparr>stats := CacheMiss (stats c), db := d\<rparr>))
 \<and> (fmlookup (data c) (makeKey K) = None \<and> kv (db c) K = None \<and> store_ready 1 (db c)
      \<longrightarrow> fst (Get K c) = ([], False, None)
        \<and> data (snd (Get K c)) = data c
        \<and> stats (snd (Get K c))
            = (stats c)\<lparr>cache_accesses := cache_accesses (stats c) + 1,
                        cache_misses := cache_misses (stats c) + 1\<rparr>
        \<and> cache_misses (stats (snd (Get K c))) = cache_misses (stats c) + 1
        \<and> cache_accesses (stats (snd (Get K c))) = cache_accesses (stats c) + 1
        \<and> cache_hits (stats (snd (Get K c))) = cache_hits (stats c)
        \<and> evictions (stats (snd (Get K c))) = evictions (stats c)
        \<and> prefetches (stats (snd (Get K c))) = prefetches (stats c)
        \<and> additions (stats (snd (Get K c))) = additions (stats c))"
proof (intro conjI impI)
  assume "fmlookup (data c) (makeKey K) = None \<and> db_Get K (db c) = ((v, Some ErrNotFound), d)"
  then have "fmlookup (data c) (makeKey K) = None" "db_Get K (db c) = ((v, Some ErrNotFound), d)"
    by simp_all
  from Get_not_resident[OF this]
  show "Get K c = (([], False, None), c\<lparr>stats := CacheMiss (stats c), db := d\<rparr>)"
    by simp
next
  assume h: "fmlookup (data c) (makeKey K) = None \<and> kv (db c) K = None \<and> store_ready 1 (db c)"
  then have "store_ready (Suc 0) (db c)" by simp
  from db_Get_ready[OF this, of K] h
  have "db_Get K (db c) = (([], Some ErrNotFound), (db c)\<lparr>faults := tl (faults (db c))\<rparr>)"
    by simp
  with h have eq: "Get K c = (([], False, None),
      c\<lparr>stats := CacheMiss (stats c), db := (db c)\<lparr>faults := tl (faults (db c))\<rparr>\<rparr>)"
    using Get_not_resident[of c K "[]" "Some ErrNotFound"] by simp
  from eq show "fst (Get K c) = ([], False, None)" by simp
  from eq show "data (snd (Get K c)) = data c" by simp
  from eq show "stats (snd (Get K c))
            = (stats c)\<lparr>cache_accesses := cache_accesses (stats c) + 1,
                        cache_misses := cache_misses (stats c) + 1\<rparr>"
    by (simp add: CacheMiss_def)
  from eq show "cache_misses (stats (snd (Get K c))) = cache_misses (stats c) + 1"
    by (simp add: CacheMiss_def)
  from eq show "cache_accesses (stats (snd (Get K c))) = cache_accesses (stats c) + 1"
    by (simp add: CacheMiss_def)
  from eq show "cache_hits (stats (snd (Get K c))) = cache_hits (stats c)"
    by (simp add: CacheMiss_def)
  from eq show "evictions (stats (snd (Get K c))) = evictions (stats c)"
    by (simp add: CacheMiss_def)
  from eq show "prefetches (stats (snd (Get K c))) = prefetches (stats c)"
    by (simp add: CacheMiss_def)
  from eq show "additions (stats (snd (Get K c))) = additions (stats c)"
    by (simp add: CacheMiss_def)
qed

text \<open>The witness: \<open>''Z''\<close> is looked up in the cache that holds \<open>''A''\<close> over a store without \<open>''Z''\<close>.\<close>

theorem Get_absent_key_witness:
  "fmlookup (data demo_cache_A) (makeKey ''Z'') = None
 \<and> db_Get ''Z'' (db demo_cache_A) = (([], Some ErrNotFound), demo_db)
 \<and> Get ''Z'' demo_cache_A
     = (([], False, None), demo_cache_A\<lparr>stats := CacheMiss (stats demo_cache_A), db := demo_db\<rparr>)
 \<and> kv (db demo_cache_A) ''Z'' = None
 \<and> store_ready 1 (db demo_cache_A)
 \<and> fst (Get ''Z'' demo_cache_A) = ([], False, None)
 \<and> data (snd (Get ''Z'' demo_cache_A)) = data demo_cache_A
 \<and> stats demo_cache_A
     = \<lparr>cache_hits = 0, cache_misses = 1, cache_accesses = 1, evictions = 0, prefetches = 0,
        additions = 0\<rparr>
 \<and> stats (snd (Get ''Z'' demo_cache_A))
     = \<lparr>cache_hits = 0, cache_misses = 2, cache_accesses = 2, evictions = 0, prefetches = 0,
        additions = 0\<rparr>"
  using Get_absent_key [of demo_cache_A "''Z''" "[]" demo_db]
  by (simp add: demo_defs op_defs)

text \<open>
  The claim as first stated has the miss counter as the only statistic that changes.
  At the same lookup the key is in neither the table nor the store, and the statistics
  after the call are not the statistics before with one more miss: \<open>CacheMiss\<close> counts
  an access too.
\<close>

theorem Get_absent_key_counterexample:
  "fmlookup (data demo_cache_A) (makeKey ''Z'') = None
 \<and> kv (db demo_cache_A) ''Z'' = None
 \<and> \<not> (fst (Get ''Z'' demo_cache_A) = ([], False, None)
      \<and> stats (snd (Get ''Z'' demo_cache_A))
          = (stats demo_cache_A)\<lparr>cache_misses := cache_misses (stats demo_cache_A) + 1\<rparr>
      \<and> data (snd (Get ''Z'' demo_cache_A)) = data demo_cache_A)"
  by (simp add: demo_defs op_defs)

text \<open>
  Claim C10. No operation of the cache counts a prefetch or an addition: every call
  leaves the counters \<open>prefetches\<close> and \<open>additions\<close> as they were, so after any
  sequence of calls on a new cache both are still zero, whatever was prefetched or
  inserted.
\<close>

theorem prefetches_additions_stay_zero:
  "prefetches (stats (apply_op x c)) = prefetches (stats c)
 \<and> additions (stats (apply_op x c)) = additions (stats c)
 \<and> prefetches (stats (run ops (CreateCache d cap clk))) = 0
 \<and> additions (stats (run ops (CreateCache d cap clk))) = 0"
  by (simp add: apply_op_counters run_counters CreateCache_def CreateStatistics_def)

end
